theory Spec2Isabelle
  imports Complex_Main "HOL-Library.Finite_Map" "HOL-Library.Log_Nat" "HOL-Library.Sublist"
begin

section \<open>JSON documents and patch operations\<close>

text \<open>
  A document is a JSON tree. Objects are finite maps from keys to values, so that equality
  of two documents is deep equality (the order of the keys of an object plays no role).
  A JavaScript value that may also be \<^verbatim>\<open>undefined\<close> is a \<open>json option\<close>, with
  \<open>None\<close> for \<^verbatim>\<open>undefined\<close>.
\<close>

datatype json =
    JNull
  | JBool bool
  | JNum rat
  | JStr string
  | JArr "json list"
  | JObj "(string, json) fmap"

type_synonym jsval = "json option"

datatype opkind = Add | Remove | Replace | Copy | Move | Test

text \<open>
  An element of a \<^verbatim>\<open>ValidatedPatch\<close>: the output type of \<^verbatim>\<open>operationSchema\<close>.
  The fields \<^verbatim>\<open>from\<close> and \<^verbatim>\<open>value\<close> are optional; \<open>None\<close> is an absent field, and
  \<open>Some JNull\<close> is a \<^verbatim>\<open>value\<close> field holding an explicit \<^verbatim>\<open>null\<close>.
\<close>

record operation =
  op_kind :: opkind
  op_path :: string
  op_from :: "string option"
  op_value :: "json option"

section \<open>Structural validation (validate.ts, lines 4 to 37)\<close>

text \<open>
  \<^verbatim>\<open>jsonPointerPattern = /^\/(?:[^~\/]|~0|~1)*(?:\/(?:[^~\/]|~0|~1)*)*$/\<close>

  After the mandatory leading slash the pattern reads, up to the end of the string, any
  mixture of slashes, of characters other than \<^verbatim>\<open>~\<close> and \<^verbatim>\<open>/\<close>, and of the two
  escapes \<^verbatim>\<open>~0\<close> and \<^verbatim>\<open>~1\<close>. The alternatives start with different characters, so
  reading from left to right decides the match.
\<close>

fun pointer_tail :: "string \<Rightarrow> bool" where
  "pointer_tail [] = True"
| "pointer_tail (c # cs) =
     (if c = CHR ''~''
      then (case cs of
              [] \<Rightarrow> False
            | d # ds \<Rightarrow> (d = CHR ''0'' \<or> d = CHR ''1'') \<and> pointer_tail ds)
      else pointer_tail cs)"

definition jsonPointerPattern :: "string \<Rightarrow> bool" where
  "jsonPointerPattern s =
     (case s of [] \<Rightarrow> False | c # cs \<Rightarrow> c = CHR ''/'' \<and> pointer_tail cs)"

text \<open>
  The issues a \<^verbatim>\<open>ZodError\<close> of \<^verbatim>\<open>patchSchema\<close> can carry. \<open>Invalid_type f\<close> is zod's
  \<^verbatim>\<open>invalid_type\<close> for the field \<open>f\<close> (the empty name stands for the value as a whole),
  \<open>Invalid_enum_value\<close> an \<^verbatim>\<open>op\<close> outside the six kinds, and the other four are the
  messages written in \<^verbatim>\<open>operationSchema\<close>: \<^verbatim>\<open>Invalid JSON Pointer\<close>,
  \<^verbatim>\<open>requires a value\<close>, \<^verbatim>\<open>requires a from pointer\<close> and \<^verbatim>\<open>Invalid from pointer\<close>.
\<close>

datatype issue =
    Invalid_type string
  | Invalid_enum_value
  | Invalid_JSON_Pointer
  | Requires_a_value opkind
  | Requires_a_from_pointer opkind
  | Invalid_from_pointer

definition op_names :: "(string \<times> opkind) list" where
  "op_names =
     [(''add'', Add), (''remove'', Remove), (''replace'', Replace),
      (''copy'', Copy), (''move'', Move), (''test'', Test)]"

text \<open>
  A zod parser returns the issues it added and, unless it aborted, the parsed value
  (\<open>None\<close> is zod's \<^verbatim>\<open>INVALID\<close>). A failed \<^verbatim>\<open>regex\<close> check adds an issue and keeps the
  value (status dirty); a value of the wrong type aborts.
\<close>

definition z_op :: "jsval \<Rightarrow> issue list \<times> opkind option" where
  "z_op d =
     (case d of
        Some (JStr s) \<Rightarrow>
          (case map_of op_names s of
             Some k \<Rightarrow> ([], Some k)
           | None \<Rightarrow> ([Invalid_enum_value], None))
      | _ \<Rightarrow> ([Invalid_type ''op''], None))"

definition z_path :: "jsval \<Rightarrow> issue list \<times> string option" where
  "z_path d =
     (case d of
        Some (JStr s) \<Rightarrow> (if jsonPointerPattern s then [] else [Invalid_JSON_Pointer], Some s)
      | _ \<Rightarrow> ([Invalid_type ''path''], None))"

definition z_from :: "jsval \<Rightarrow> issue list \<times> string option option" where
  "z_from d =
     (case d of
        None \<Rightarrow> ([], Some None)
      | Some (JStr s) \<Rightarrow> ([], Some (Some s))
      | Some _ \<Rightarrow> ([Invalid_type ''from''], None))"

text \<open>
  The body of \<^verbatim>\<open>superRefine\<close>. \<^verbatim>\<open>!op.from\<close> holds for an absent \<^verbatim>\<open>from\<close> and for the
  empty string.
\<close>

definition from_falsy :: "string option \<Rightarrow> bool" where
  "from_falsy f = (case f of None \<Rightarrow> True | Some s \<Rightarrow> s = [])"

definition superRefine :: "operation \<Rightarrow> issue list" where
  "superRefine x =
     (if (op_kind x = Add \<or> op_kind x = Replace \<or> op_kind x = Test) \<and> op_value x = None
      then [Requires_a_value (op_kind x)] else []) @
     (if (op_kind x = Copy \<or> op_kind x = Move) \<and> from_falsy (op_from x)
      then [Requires_a_from_pointer (op_kind x)] else []) @
     (if (op_kind x = Move \<or> op_kind x = Copy) \<and> \<not> from_falsy (op_from x)
           \<and> \<not> jsonPointerPattern (case op_from x of Some s \<Rightarrow> s | None \<Rightarrow> [])
      then [Invalid_from_pointer] else [])"

text \<open>
  \<^verbatim>\<open>z.object({op, path, from, value}).superRefine(...)\<close>: every field is parsed and its
  issues are kept; keys outside the shape are dropped; the refinement runs unless a field
  aborted.
\<close>

definition operationSchema :: "json \<Rightarrow> issue list \<times> operation option" where
  "operationSchema j =
     (case j of
        JObj m \<Rightarrow>
          (let (i1, k) = z_op (fmlookup m ''op'');
               (i2, p) = z_path (fmlookup m ''path'');
               (i3, f) = z_from (fmlookup m ''from'')
           in case (k, p, f) of
                (Some k', Some p', Some f') \<Rightarrow>
                  (let x = \<lparr>op_kind = k', op_path = p', op_from = f',
                            op_value = fmlookup m ''value''\<rparr>
                   in (i1 @ i2 @ i3 @ superRefine x, Some x))
              | _ \<Rightarrow> (i1 @ i2 @ i3, None))
      | _ \<Rightarrow> ([Invalid_type []], None))"

definition patchSchema :: "json \<Rightarrow> issue list \<times> operation list option" where
  "patchSchema j =
     (case j of
        JArr items \<Rightarrow>
          (let rs = map operationSchema items
           in (concat (map fst rs), those (map snd rs)))
      | _ \<Rightarrow> ([Invalid_type []], None))"

text \<open>
  \<^verbatim>\<open>validatePatchStructure(patch) = patchSchema.parse(patch)\<close>: the parsed patch when no
  issue was raised, and otherwise a \<^verbatim>\<open>ZodError\<close> with all the issues. The candidate is
  the JSON value received from the proposer; no document is an argument.
\<close>

definition validatePatchStructure :: "json \<Rightarrow> issue list + operation list" where
  "validatePatchStructure patch =
     (case patchSchema patch of
        ([], Some ops) \<Rightarrow> Inr ops
      | (is, _) \<Rightarrow> Inl is)"

section \<open>The JSON-Patch library used by validate.ts\<close>

text \<open>
  \<^verbatim>\<open>validate.ts\<close> imports \<^verbatim>\<open>applyPatch\<close>, \<^verbatim>\<open>getValueByPointer\<close> and \<^verbatim>\<open>deepClone\<close> from
  the package fast-json-patch. This section models the functions of that package
  (\<^verbatim>\<open>core.ts\<close> and \<^verbatim>\<open>helpers.ts\<close>, version 3) that these three reach, on JSON values.

  Limits of the model, each visible as a branch below. Where the library would leave the
  JSON values the model stops with the outcome \<open>Unmodelled\<close>, which says nothing about
  what the code does:
  \<^item> reading a member that a value does not have itself but inherits from a built-in
    prototype (\<^verbatim>\<open>toString\<close>, \<^verbatim>\<open>constructor\<close>, \<^verbatim>\<open>push\<close> and the like), which yields a
    function;
  \<^item> a named property stored on an array, \<^verbatim>\<open>undefined\<close> stored in a document, a write to
    a string, number or boolean, an array index that is not a run of digits handed to
    \<^verbatim>\<open>splice\<close>, a document moved into itself.
  Values are trees: a value that an operation stores in the document is the same tree as
  the \<^verbatim>\<open>value\<close> of the operation, and the model of this section does not record that the
  library stores the very object of the patch. That sharing is the subject of the section
  on patch values below.
\<close>

datatype patch_error_name =
    OPERATION_PATH_INVALID
  | OPERATION_FROM_REQUIRED
  | OPERATION_VALUE_REQUIRED
  | OPERATION_PATH_CANNOT_ADD
  | OPERATION_PATH_UNRESOLVABLE
  | OPERATION_FROM_UNRESOLVABLE
  | OPERATION_PATH_ILLEGAL_ARRAY_INDEX
  | OPERATION_VALUE_OUT_OF_BOUNDS
  | TEST_OPERATION_FAILED

text \<open>
  Everything that can be thrown. The first four are the \<^verbatim>\<open>Error\<close>s of
  \<^verbatim>\<open>validatePatchSemantics\<close>, named after the specification and carrying what the
  message interpolates:
  \<^item> \<open>PathNotFound p k\<close>: \<^verbatim>\<open>Path ${p} does not exist for operation ${k}\<close>;
  \<^item> \<open>ParentMissing p\<close>: \<^verbatim>\<open>Cannot add value at ${p} because parent path is missing.\<close>;
  \<^item> \<open>SourceNotFound f k\<close>: \<^verbatim>\<open>Source path ${f} does not exist for operation ${k}\<close>;
  \<^item> \<open>TypeMismatch p e r\<close>: \<^verbatim>\<open>Type mismatch at ${p}: expected ${e}, received ${r}\<close>.
  \<open>TypeError\<close> is the JavaScript error of reading a member of \<^verbatim>\<open>null\<close> or
  \<^verbatim>\<open>undefined\<close> and of the library's ban on \<^verbatim>\<open>__proto__\<close>; \<open>JsonPatchError\<close> is the
  library's own error with its name.
\<close>

datatype error =
    PathNotFound string opkind
  | ParentMissing string
  | SourceNotFound string opkind
  | TypeMismatch string string string
  | TypeError
  | JsonPatchError patch_error_name
  | Unmodelled

subsection \<open>Strings and numbers\<close>

text \<open>\<^verbatim>\<open>s.split('/')\<close> and \<^verbatim>\<open>xs.join('/')\<close>.\<close>

fun split_slash :: "string \<Rightarrow> string list" where
  "split_slash [] = [[]]"
| "split_slash (c # cs) =
     (if c = CHR ''/'' then [] # split_slash cs
      else (case split_slash cs of
              [] \<Rightarrow> [[c]]
            | w # ws \<Rightarrow> (c # w) # ws))"

fun join_slash :: "string list \<Rightarrow> string" where
  "join_slash [] = []"
| "join_slash [w] = w"
| "join_slash (w # v # ws) = w @ CHR ''/'' # join_slash (v # ws)"

text \<open>
  \<^verbatim>\<open>unescapePathComponent(path) = path.replace(/~1/g, '/').replace(/~0/g, '~')\<close>
\<close>

fun replace_tilde1 :: "string \<Rightarrow> string" where
  "replace_tilde1 (a # b # cs) =
     (if a = CHR ''~'' \<and> b = CHR ''1'' then CHR ''/'' # replace_tilde1 cs
      else a # replace_tilde1 (b # cs))"
| "replace_tilde1 cs = cs"

fun replace_tilde0 :: "string \<Rightarrow> string" where
  "replace_tilde0 (a # b # cs) =
     (if a = CHR ''~'' \<and> b = CHR ''0'' then CHR ''~'' # replace_tilde0 cs
      else a # replace_tilde0 (b # cs))"
| "replace_tilde0 cs = cs"

definition unescapePathComponent :: "string \<Rightarrow> string" where
  "unescapePathComponent p = replace_tilde0 (replace_tilde1 p)"

text \<open>
  \<^verbatim>\<open>isInteger(str)\<close>: every character is a decimal digit (true of the empty string).
\<close>

definition is_digit :: "char \<Rightarrow> bool" where
  "is_digit c = (c \<in> set ''0123456789'')"

definition isInteger :: "string \<Rightarrow> bool" where
  "isInteger str = list_all is_digit str"

definition digit_val :: "char \<Rightarrow> nat" where
  "digit_val c = of_char c - 48"

definition dec :: "string \<Rightarrow> nat" where
  "dec str = foldl (\<lambda>n c. 10 * n + digit_val c) 0 str"

text \<open>
  \<^verbatim>\<open>~~key\<close> on a run of digits: the digits are read as a number (a double: beyond
  \<open>2 ^ 53\<close> the value is rounded to 53 significant bits, ties to even) and the number is
  taken to a signed 32-bit integer. A value too large for a double becomes infinity, which
  \<^verbatim>\<open>~~\<close> takes to 0; the rounded value is then a multiple of \<open>2 ^ 32\<close>, so the same
  formula covers it.
\<close>

definition round53 :: "nat \<Rightarrow> nat" where
  "round53 n =
     (if n < 2 ^ 53 then n
      else (let e = floorlog 2 n - 53; q = n div 2 ^ e; r = n mod 2 ^ e
            in (if 2 ^ e < 2 * r \<or> (2 * r = 2 ^ e \<and> odd q) then q + 1 else q) * 2 ^ e))"

definition toInt32 :: "nat \<Rightarrow> int" where
  "toInt32 n = (let m = int (n mod 2 ^ 32) in if 2 ^ 31 \<le> m then m - 2 ^ 32 else m)"

definition tilde_tilde :: "string \<Rightarrow> int" where
  "tilde_tilde key = toInt32 (round53 (dec key))"

subsection \<open>Reading members\<close>

text \<open>
  The decimal numeral of an array index: digits without a leading zero. Only such a string
  names an element of an array or a character of a string.
\<close>

definition canonical_index :: "string \<Rightarrow> nat option" where
  "canonical_index key =
     (case key of
        [] \<Rightarrow> None
      | c # cs \<Rightarrow> if isInteger key \<and> (c \<noteq> CHR ''0'' \<or> cs = []) then Some (dec key) else None)"

text \<open>\<^verbatim>\<open>arr[key]\<close> for a string \<^verbatim>\<open>key\<close>.\<close>

definition arr_get :: "json list \<Rightarrow> string \<Rightarrow> jsval" where
  "arr_get xs key =
     (case canonical_index key of
        Some n \<Rightarrow> if n < length xs then Some (xs ! n) else None
      | None \<Rightarrow> if key = ''length'' then Some (JNum (of_nat (length xs))) else None)"

text \<open>
  The names of the members that the values of a document inherit: the properties of
  \<^verbatim>\<open>Object.prototype\<close>, \<^verbatim>\<open>Array.prototype\<close>, \<^verbatim>\<open>String.prototype\<close>,
  \<^verbatim>\<open>Number.prototype\<close> and \<^verbatim>\<open>Boolean.prototype\<close> of ECMAScript 2024 that are named by a
  string, those of its Annex B included. Every prototype but the first inherits from the
  first.
\<close>

definition object_prototype_names :: "string list" where
  "object_prototype_names =
     [''constructor'', ''hasOwnProperty'', ''isPrototypeOf'', ''propertyIsEnumerable'',
      ''toLocaleString'', ''toString'', ''valueOf'', ''__proto__'', ''__defineGetter__'',
      ''__defineSetter__'', ''__lookupGetter__'', ''__lookupSetter__'']"

definition array_prototype_names :: "string list" where
  "array_prototype_names =
     [''at'', ''concat'', ''copyWithin'', ''entries'', ''every'', ''fill'', ''filter'', ''find'',
      ''findIndex'', ''findLast'', ''findLastIndex'', ''flat'', ''flatMap'', ''forEach'',
      ''includes'', ''indexOf'', ''join'', ''keys'', ''lastIndexOf'', ''map'', ''pop'', ''push'',
      ''reduce'', ''reduceRight'', ''reverse'', ''shift'', ''slice'', ''some'', ''sort'',
      ''splice'', ''toReversed'', ''toSorted'', ''toSpliced'', ''unshift'', ''values'',
      ''with''] @ object_prototype_names"

definition string_prototype_names :: "string list" where
  "string_prototype_names =
     [''anchor'', ''at'', ''big'', ''blink'', ''bold'', ''charAt'', ''charCodeAt'',
      ''codePointAt'', ''concat'', ''endsWith'', ''fixed'', ''fontcolor'', ''fontsize'',
      ''includes'', ''indexOf'', ''isWellFormed'', ''italics'', ''lastIndexOf'', ''link'',
      ''localeCompare'', ''match'', ''matchAll'', ''normalize'', ''padEnd'', ''padStart'',
      ''repeat'', ''replace'', ''replaceAll'', ''search'', ''slice'', ''small'', ''split'',
      ''startsWith'', ''strike'', ''sub'', ''substr'', ''substring'', ''sup'',
      ''toLocaleLowerCase'', ''toLocaleUpperCase'', ''toLowerCase'', ''toUpperCase'',
      ''toWellFormed'', ''trim'', ''trimEnd'', ''trimLeft'', ''trimRight'', ''trimStart'']
     @ object_prototype_names"

definition number_prototype_names :: "string list" where
  "number_prototype_names =
     [''toExponential'', ''toFixed'', ''toPrecision''] @ object_prototype_names"

definition boolean_prototype_names :: "string list" where
  "boolean_prototype_names = object_prototype_names"

text \<open>
  \<^verbatim>\<open>obj[key]\<close> for a string \<^verbatim>\<open>key\<close>: a \<^verbatim>\<open>TypeError\<close> on \<^verbatim>\<open>null\<close>; otherwise the
  value's own member when it has one, a function outside the JSON values when the key
  names an inherited member, and \<^verbatim>\<open>undefined\<close> when it names neither. The own members
  of an object are its keys, those of an array its elements and \<^verbatim>\<open>length\<close>, those of a
  string its characters and \<^verbatim>\<open>length\<close>; a number or boolean has none.
\<close>

definition member_or :: "string list \<Rightarrow> string \<Rightarrow> jsval \<Rightarrow> error + jsval" where
  "member_or inherited key own =
     (case own of
        Some v \<Rightarrow> Inr (Some v)
      | None \<Rightarrow> if key \<in> set inherited then Inl Unmodelled else Inr None)"

fun get_member :: "json \<Rightarrow> string \<Rightarrow> error + jsval" where
  "get_member JNull key = Inl TypeError"
| "get_member (JObj m) key = member_or object_prototype_names key (fmlookup m key)"
| "get_member (JArr xs) key = member_or array_prototype_names key (arr_get xs key)"
| "get_member (JStr s) key =
     member_or string_prototype_names key
       (case canonical_index key of
          Some n \<Rightarrow> if n < length s then Some (JStr [s ! n]) else None
        | None \<Rightarrow> if key = ''length'' then Some (JNum (of_nat (length s))) else None)"
| "get_member (JBool b) key = member_or boolean_prototype_names key None"
| "get_member (JNum n) key = member_or number_prototype_names key None"

text \<open>
  Inside the traversal loop the key of an array is replaced: \<^verbatim>\<open>-\<close> by the length, a run
  of digits by \<^verbatim>\<open>~~key\<close>; any other key is an error when validating and stays a string
  otherwise.
\<close>

datatype akey = Num int | Name string

definition array_key :: "bool \<Rightarrow> json list \<Rightarrow> string \<Rightarrow> error + akey" where
  "array_key validateOperation xs key =
     (if key = ''-'' then Inr (Num (int (length xs)))
      else if validateOperation \<and> \<not> isInteger key
      then Inl (JsonPatchError OPERATION_PATH_ILLEGAL_ARRAY_INDEX)
      else if isInteger key then Inr (Num (tilde_tilde key))
      else Inr (Name key))"

text \<open>\<^verbatim>\<open>arr[key]\<close> for the replaced key; a number names no inherited member.\<close>

fun arr_member :: "json list \<Rightarrow> akey \<Rightarrow> error + jsval" where
  "arr_member xs (Num i) =
     Inr (if 0 \<le> i \<and> nat i < length xs then Some (xs ! nat i) else None)"
| "arr_member xs (Name key) = get_member (JArr xs) key"

text \<open>Where \<^verbatim>\<open>arr.splice(i, ...)\<close> starts: a negative start counts from the end.\<close>

definition splice_start :: "nat \<Rightarrow> int \<Rightarrow> nat" where
  "splice_start len i = (if i < 0 then nat (max (int len + i) 0) else min (nat i) len)"

subsection \<open>The operations on the addressed member (objOps and arrOps)\<close>

text \<open>
  What is done once the loop has reached the last key. \<open>LMoveCopy\<close> stands for \<^verbatim>\<open>move\<close>
  and \<^verbatim>\<open>copy\<close>, which work on the whole document and are run by \<open>applyOperation\<close>
  below; the other operations return the changed container and their result
  (\<^verbatim>\<open>removed\<close>, or the value read by \<^verbatim>\<open>_get\<close>).
\<close>

datatype leaf_op = LGet | LRemove | LAdd jsval | LReplace jsval | LTest jsval | LMoveCopy

fun obj_leaf :: "leaf_op \<Rightarrow> json \<Rightarrow> string \<Rightarrow> error + (json \<times> jsval) option" where
  "obj_leaf LMoveCopy obj key = Inr None"
| "obj_leaf lop obj key =
     (case get_member obj key of
        Inl e \<Rightarrow> Inl e
      | Inr cur \<Rightarrow>
          (case lop of
             LGet \<Rightarrow> Inr (Some (obj, cur))
           | LTest v \<Rightarrow>
               if cur = v then Inr (Some (obj, None))
               else Inl (JsonPatchError TEST_OPERATION_FAILED)
           | LRemove \<Rightarrow>
               (case obj of
                  JObj m \<Rightarrow> Inr (Some (JObj (fmdrop key m), cur))
                | _ \<Rightarrow> Inl Unmodelled)
           | LAdd v \<Rightarrow>
               (case (obj, v) of
                  (JObj m, Some j) \<Rightarrow> Inr (Some (JObj (fmupd key j m), None))
                | _ \<Rightarrow> Inl Unmodelled)
           | LReplace v \<Rightarrow>
               (case (obj, v) of
                  (JObj m, Some j) \<Rightarrow> Inr (Some (JObj (fmupd key j m), cur))
                | _ \<Rightarrow> Inl Unmodelled)
           | LMoveCopy \<Rightarrow> Inr None))"

fun arr_leaf :: "leaf_op \<Rightarrow> json list \<Rightarrow> akey \<Rightarrow> error + (json \<times> jsval) option" where
  "arr_leaf LMoveCopy xs k = Inr None"
| "arr_leaf LGet xs k =
     (case arr_member xs k of Inl e \<Rightarrow> Inl e | Inr cur \<Rightarrow> Inr (Some (JArr xs, cur)))"
| "arr_leaf (LTest v) xs k =
     (case arr_member xs k of
        Inl e \<Rightarrow> Inl e
      | Inr cur \<Rightarrow>
          if cur = v then Inr (Some (JArr xs, None))
          else Inl (JsonPatchError TEST_OPERATION_FAILED))"
| "arr_leaf LRemove xs (Num i) =
     (let s = splice_start (length xs) i
      in Inr (Some (JArr (take s xs @ drop (Suc s) xs),
                    if s < length xs then Some (xs ! s) else None)))"
| "arr_leaf (LAdd (Some v)) xs (Num i) =
     (let s = splice_start (length xs) i
      in Inr (Some (JArr (take s xs @ v # drop s xs), None)))"
| "arr_leaf (LReplace (Some v)) xs (Num i) =
     (if 0 \<le> i \<and> nat i < length xs
      then Inr (Some (JArr (xs[nat i := v]), Some (xs ! nat i)))
      else Inl Unmodelled)"
| "arr_leaf lop xs k = Inl Unmodelled"

text \<open>
  The model has no mutation: below the addressed member the changed child is put back
  into its parent on the way up. A string, number or boolean has no member to put back.
\<close>

fun put_member :: "json \<Rightarrow> string \<Rightarrow> json \<Rightarrow> json" where
  "put_member (JObj m) key c = JObj (fmupd key c m)"
| "put_member obj key c = obj"

fun arr_put :: "json list \<Rightarrow> akey \<Rightarrow> json \<Rightarrow> json list" where
  "arr_put xs (Num i) c = (if 0 \<le> i \<and> nat i < length xs then xs[nat i := c] else xs)"
| "arr_put xs (Name key) c = xs"

definition is_container :: "jsval \<Rightarrow> bool" where
  "is_container v = (case v of Some (JObj m) \<Rightarrow> True | Some (JArr xs) \<Rightarrow> True | _ \<Rightarrow> False)"

definition is_add :: "leaf_op \<Rightarrow> bool" where
  "is_add lop = (case lop of LAdd v \<Rightarrow> True | _ \<Rightarrow> False)"

subsection \<open>The traversal loop of applyOperation\<close>

text \<open>
  The \<^verbatim>\<open>while (true)\<close> loop of \<^verbatim>\<open>applyOperation\<close>, one call per key. \<open>pre\<close> holds the
  keys already passed (\<^verbatim>\<open>keys.slice(0, t)\<close>, starting with the text before the first
  slash), \<open>raw # rest\<close> the keys from \<^verbatim>\<open>keys[t]\<close> on, \<open>found\<close> says whether
  \<^verbatim>\<open>existingPathFragment\<close> has been set, and \<open>chk\<close> is the validator applied to the
  operation and that fragment. In the order of the source:
  \<^item> the key is unescaped;
  \<^item> \<^verbatim>\<open>__proto__\<close>, and \<^verbatim>\<open>prototype\<close> after \<^verbatim>\<open>constructor\<close>, are refused;
  \<^item> when validating and no fragment is set: a missing member sets the fragment to the
    keys passed, the last key sets it to the whole path, and the validator runs on it;
  \<^item> on an array the key is converted, and the last key runs the array operation (an
    \<^verbatim>\<open>add\<close> beyond the length is refused when validating);
  \<^item> elsewhere the last key runs the object operation;
  \<^item> otherwise the loop steps into the member, which must be an object or array when
    validating; stepping into \<^verbatim>\<open>undefined\<close> makes the next round throw a
    \<^verbatim>\<open>TypeError\<close>.
  The result \<open>Inr None\<close> reports that the last key of a \<^verbatim>\<open>move\<close> or \<^verbatim>\<open>copy\<close> was
  reached.
\<close>

fun walk :: "bool \<Rightarrow> (string \<Rightarrow> error option) \<Rightarrow> leaf_op \<Rightarrow> string \<Rightarrow> string list \<Rightarrow> bool
    \<Rightarrow> json \<Rightarrow> string list \<Rightarrow> error + (json \<times> jsval) option" where
  "walk validateOperation chk lop path pre found obj [] = Inl Unmodelled"
| "walk validateOperation chk lop path pre found obj (raw # rest) =
     (let key = unescapePathComponent raw in
      if key = ''__proto__'' \<or> (key = ''prototype'' \<and> last pre = ''constructor'')
      then Inl TypeError
      else
        case (if validateOperation \<and> \<not> found
              then (case get_member obj key of
                      Inl e \<Rightarrow> Inl e
                    | Inr None \<Rightarrow>
                        (case chk (join_slash pre) of Some e \<Rightarrow> Inl e | None \<Rightarrow> Inr True)
                    | Inr (Some cur) \<Rightarrow>
                        if rest = []
                        then (case chk path of Some e \<Rightarrow> Inl e | None \<Rightarrow> Inr True)
                        else Inr False)
              else Inr found) of
          Inl e \<Rightarrow> Inl e
        | Inr found' \<Rightarrow>
            (case obj of
               JArr xs \<Rightarrow>
                 (case array_key validateOperation xs key of
                    Inl e \<Rightarrow> Inl e
                  | Inr k \<Rightarrow>
                      if rest = []
                      then (if validateOperation \<and> is_add lop
                               \<and> (case k of Num i \<Rightarrow> int (length xs) < i | Name n \<Rightarrow> False)
                            then Inl (JsonPatchError OPERATION_VALUE_OUT_OF_BOUNDS)
                            else arr_leaf lop xs k)
                      else (case arr_member xs k of
                              Inl e \<Rightarrow> Inl e
                            | Inr c \<Rightarrow>
                                if validateOperation \<and> \<not> is_container c
                                then Inl (JsonPatchError OPERATION_PATH_UNRESOLVABLE)
                                else (case c of
                                        None \<Rightarrow> Inl TypeError
                                      | Some child \<Rightarrow>
                                          (case walk validateOperation chk lop path
                                                  (pre @ [raw]) found' child rest of
                                             Inl e \<Rightarrow> Inl e
                                           | Inr None \<Rightarrow> Inr None
                                           | Inr (Some (child', r)) \<Rightarrow>
                                               Inr (Some (JArr (arr_put xs k child'), r))))))
             | _ \<Rightarrow>
                 if rest = [] then obj_leaf lop obj key
                 else (case get_member obj key of
                         Inl e \<Rightarrow> Inl e
                       | Inr c \<Rightarrow>
                           if validateOperation \<and> \<not> is_container c
                           then Inl (JsonPatchError OPERATION_PATH_UNRESOLVABLE)
                           else (case c of
                                   None \<Rightarrow> Inl TypeError
                                 | Some child \<Rightarrow>
                                     (case walk validateOperation chk lop path (pre @ [raw])
                                             found' child rest of
                                        Inl e \<Rightarrow> Inl e
                                      | Inr None \<Rightarrow> Inr None
                                      | Inr (Some (child', r)) \<Rightarrow>
                                          Inr (Some (put_member obj key child', r)))))))"

subsection \<open>Unvalidated operations and getValueByPointer\<close>

text \<open>
  \<^verbatim>\<open>applyOperation(document, {op, path})\<close> with \<^verbatim>\<open>validateOperation\<close> false and a path
  that is not empty: the calls made by \<^verbatim>\<open>getValueByPointer\<close>, \<^verbatim>\<open>move\<close> and \<^verbatim>\<open>copy\<close>.
  A path without a slash has the single key \<^verbatim>\<open>keys[1] = undefined\<close>: an array then
  throws in \<^verbatim>\<open>isInteger\<close>, anything else is addressed at the member named
  \<^verbatim>\<open>undefined\<close>.
\<close>

definition nv_apply :: "leaf_op \<Rightarrow> json \<Rightarrow> string \<Rightarrow> error + (json \<times> jsval) option" where
  "nv_apply lop doc path =
     (case split_slash path of
        [] \<Rightarrow> Inl Unmodelled
      | [k0] \<Rightarrow> (case doc of JArr xs \<Rightarrow> Inl TypeError | _ \<Rightarrow> obj_leaf lop doc ''undefined'')
      | k0 # ks \<Rightarrow> walk False (\<lambda>frag. None) lop path [k0] False doc ks)"

text \<open>
  \<^verbatim>\<open>getValueByPointer(document, pointer)\<close>: the document itself for the empty pointer,
  and otherwise the value read by an unvalidated \<^verbatim>\<open>_get\<close>. A missing member is read
  as \<^verbatim>\<open>undefined\<close>; the call throws only when the traversal passes through \<^verbatim>\<open>null\<close>
  or \<^verbatim>\<open>undefined\<close>, or names \<^verbatim>\<open>__proto__\<close>. The outcome \<open>Inl Unmodelled\<close> is not an
  error thrown: the traversal read an inherited member.
\<close>

definition getValueByPointer :: "json \<Rightarrow> string \<Rightarrow> error + jsval" where
  "getValueByPointer document pointer =
     (if pointer = [] then Inr (Some document)
      else (case nv_apply LGet document pointer of
              Inl e \<Rightarrow> Inl e
            | Inr None \<Rightarrow> Inl Unmodelled
            | Inr (Some (d, v)) \<Rightarrow> Inr v))"

subsection \<open>The validator\<close>

text \<open>
  The checks of \<^verbatim>\<open>validator\<close> that need no document. The kind \<open>Get\<close> is the library's
  internal \<^verbatim>\<open>_get\<close>.
\<close>

datatype lib_kind = Std opkind | Get

definition validator_base :: "lib_kind \<Rightarrow> string \<Rightarrow> string option \<Rightarrow> jsval \<Rightarrow> error option" where
  "validator_base k path frm val =
     (if (case path of [] \<Rightarrow> False | c # cs \<Rightarrow> c \<noteq> CHR ''/'')
      then Some (JsonPatchError OPERATION_PATH_INVALID)
      else if (k = Std Move \<or> k = Std Copy) \<and> frm = None
      then Some (JsonPatchError OPERATION_FROM_REQUIRED)
      else if (k = Std Add \<or> k = Std Replace \<or> k = Std Test) \<and> val = None
      then Some (JsonPatchError OPERATION_VALUE_REQUIRED)
      else None)"

text \<open>\<^verbatim>\<open>if (document)\<close>: the falsy documents are null, false, 0 and the empty string.\<close>

definition truthy :: "json \<Rightarrow> bool" where
  "truthy doc =
     (case doc of
        JNull \<Rightarrow> False
      | JBool b \<Rightarrow> b
      | JNum n \<Rightarrow> n \<noteq> 0
      | JStr s \<Rightarrow> s \<noteq> []
      | _ \<Rightarrow> True)"

text \<open>
  \<^verbatim>\<open>validate([{op: '_get', path: pointer}], document)\<close>, the check \<^verbatim>\<open>validator\<close> makes
  for the \<^verbatim>\<open>from\<close> of a \<^verbatim>\<open>move\<close> or \<^verbatim>\<open>copy\<close>: a validated \<^verbatim>\<open>_get\<close> on a copy of the
  document. The result is the error, if any; the value read is not used.
\<close>

definition validator_get :: "string \<Rightarrow> json \<Rightarrow> string \<Rightarrow> error option" where
  "validator_get path doc frag =
     (case validator_base Get path None None of
        Some e \<Rightarrow> Some e
      | None \<Rightarrow>
          if truthy doc \<and> path \<noteq> frag then Some (JsonPatchError OPERATION_PATH_UNRESOLVABLE)
          else None)"

definition validate_get :: "json \<Rightarrow> string \<Rightarrow> error option" where
  "validate_get doc pointer =
     (case validator_base Get pointer None None of
        Some e \<Rightarrow> Some e
      | None \<Rightarrow>
          if pointer = [] then None
          else (case split_slash pointer of
                  [] \<Rightarrow> Some Unmodelled
                | k0 # ks \<Rightarrow>
                    (case walk True (validator_get pointer doc) LGet pointer [k0] False doc ks of
                       Inl e \<Rightarrow> Some e
                     | Inr r \<Rightarrow> None)))"

text \<open>
  \<^verbatim>\<open>validator(operation, 0, document, existingPathFragment)\<close> for the six kinds of a
  patch. For \<^verbatim>\<open>move\<close> and \<^verbatim>\<open>copy\<close> only the error named
  \<^verbatim>\<open>OPERATION_PATH_UNRESOLVABLE\<close> of the check of \<^verbatim>\<open>from\<close> is turned into
  \<^verbatim>\<open>OPERATION_FROM_UNRESOLVABLE\<close>; another \<^verbatim>\<open>JsonPatchError\<close> is dropped, and an
  error of another class is passed on by \<^verbatim>\<open>validate\<close>.
\<close>

definition validator :: "opkind \<Rightarrow> string \<Rightarrow> string option \<Rightarrow> jsval \<Rightarrow> json \<Rightarrow> string \<Rightarrow> error option" where
  "validator k path frm val doc frag =
     (case validator_base (Std k) path frm val of
        Some e \<Rightarrow> Some e
      | None \<Rightarrow>
          if \<not> truthy doc then None
          else if k = Add
          then (let pathLen = length (split_slash path);
                    existingPathLen = length (split_slash frag)
                in if pathLen \<noteq> existingPathLen + 1 \<and> pathLen \<noteq> existingPathLen
                   then Some (JsonPatchError OPERATION_PATH_CANNOT_ADD) else None)
          else if k = Replace \<or> k = Remove
          then (if path \<noteq> frag then Some (JsonPatchError OPERATION_PATH_UNRESOLVABLE) else None)
          else if k = Move \<or> k = Copy
          then (case frm of
                  None \<Rightarrow> Some (JsonPatchError OPERATION_FROM_REQUIRED)
                | Some f \<Rightarrow>
                    (case validate_get doc f of
                       None \<Rightarrow> None
                     | Some (JsonPatchError n) \<Rightarrow>
                         if n = OPERATION_PATH_UNRESOLVABLE
                         then Some (JsonPatchError OPERATION_FROM_UNRESOLVABLE) else None
                     | Some e \<Rightarrow> Some e))
          else None)"

subsection \<open>applyOperation and applyPatch with validation\<close>

text \<open>
  \<^verbatim>\<open>_deepClone\<close> on a value: a JSON value is copied, \<^verbatim>\<open>undefined\<close> becomes
  \<^verbatim>\<open>null\<close>.
\<close>

definition deep_clone_value :: "jsval \<Rightarrow> json" where
  "deep_clone_value v = (case v of None \<Rightarrow> JNull | Some j \<Rightarrow> j)"

text \<open>
  \<^verbatim>\<open>objOps.move\<close>: read the target, remove the value at \<^verbatim>\<open>from\<close>, add it at \<^verbatim>\<open>path\<close>,
  the last two as unvalidated operations on the whole document.
\<close>

definition move_op :: "json \<Rightarrow> string \<Rightarrow> string \<Rightarrow> error + json" where
  "move_op doc frm path =
     (case getValueByPointer doc path of
        Inl e \<Rightarrow> Inl e
      | Inr removed \<Rightarrow>
          if frm = [] then Inl Unmodelled
          else (case nv_apply LRemove doc frm of
                  Inl e \<Rightarrow> Inl e
                | Inr None \<Rightarrow> Inl Unmodelled
                | Inr (Some (doc1, originalValue)) \<Rightarrow>
                    (case nv_apply (LAdd originalValue) doc1 path of
                       Inl e \<Rightarrow> Inl e
                     | Inr None \<Rightarrow> Inl Unmodelled
                     | Inr (Some (doc2, r)) \<Rightarrow> Inr doc2)))"

text \<open>\<^verbatim>\<open>objOps.copy\<close>: add a copy of the value at \<^verbatim>\<open>from\<close> at \<^verbatim>\<open>path\<close>.\<close>

definition copy_op :: "json \<Rightarrow> string \<Rightarrow> string \<Rightarrow> error + json" where
  "copy_op doc frm path =
     (case getValueByPointer doc frm of
        Inl e \<Rightarrow> Inl e
      | Inr valueToCopy \<Rightarrow>
          (case nv_apply (LAdd (Some (deep_clone_value valueToCopy))) doc path of
             Inl e \<Rightarrow> Inl e
           | Inr None \<Rightarrow> Inl Unmodelled
           | Inr (Some (doc2, r)) \<Rightarrow> Inr doc2))"

definition leaf_of :: "opkind \<Rightarrow> jsval \<Rightarrow> leaf_op" where
  "leaf_of k v =
     (case k of
        Add \<Rightarrow> LAdd v
      | Remove \<Rightarrow> LRemove
      | Replace \<Rightarrow> LReplace v
      | Copy \<Rightarrow> LMoveCopy
      | Move \<Rightarrow> LMoveCopy
      | Test \<Rightarrow> LTest v)"

text \<open>
  The operations on the root (\<^verbatim>\<open>operation.path === ""\<close>); the result is the new
  document.
\<close>

definition root_op :: "json \<Rightarrow> operation \<Rightarrow> error + json" where
  "root_op doc x =
     (case op_kind x of
        Add \<Rightarrow> (case op_value x of Some v \<Rightarrow> Inr v | None \<Rightarrow> Inl Unmodelled)
      | Replace \<Rightarrow> (case op_value x of Some v \<Rightarrow> Inr v | None \<Rightarrow> Inl Unmodelled)
      | Remove \<Rightarrow> Inr JNull
      | Test \<Rightarrow>
          if op_value x = Some doc then Inr doc
          else Inl (JsonPatchError TEST_OPERATION_FAILED)
      | _ \<Rightarrow>
          (case op_from x of
             None \<Rightarrow> Inl Unmodelled
           | Some f \<Rightarrow>
               (case getValueByPointer doc f of
                  Inl e \<Rightarrow> Inl e
                | Inr None \<Rightarrow> Inl Unmodelled
                | Inr (Some v) \<Rightarrow> Inr v)))"

text \<open>
  \<^verbatim>\<open>applyOperation(document, operation, true, true, true, i)\<close>, as \<^verbatim>\<open>applyPatch\<close> calls
  it when \<^verbatim>\<open>validateOperation\<close> is true: the validator without a document, then the
  root operations, then the loop. The result is \<^verbatim>\<open>newDocument\<close>.
\<close>

definition applyOperation :: "json \<Rightarrow> operation \<Rightarrow> error + json" where
  "applyOperation doc x =
     (case validator_base (Std (op_kind x)) (op_path x) (op_from x) (op_value x) of
        Some e \<Rightarrow> Inl e
      | None \<Rightarrow>
          if op_path x = [] then root_op doc x
          else (case split_slash (op_path x) of
                  [] \<Rightarrow> Inl Unmodelled
                | k0 # ks \<Rightarrow>
                    (case walk True
                            (validator (op_kind x) (op_path x) (op_from x) (op_value x) doc)
                            (leaf_of (op_kind x) (op_value x)) (op_path x) [k0] False doc ks of
                       Inl e \<Rightarrow> Inl e
                     | Inr (Some (doc', r)) \<Rightarrow> Inr doc'
                     | Inr None \<Rightarrow>
                         (case op_from x of
                            None \<Rightarrow> Inl Unmodelled
                          | Some f \<Rightarrow>
                              if op_kind x = Move then move_op doc f (op_path x)
                              else copy_op doc f (op_path x)))))"

text \<open>
  Documents live in a store, a list of cells addressed by position, so that the caller's
  document and the working copy are two cells. \<^verbatim>\<open>deepClone(document)\<close>
  (\<^verbatim>\<open>JSON.parse(JSON.stringify(document))\<close>) fills a new cell with the same tree and
  returns its address.
\<close>

type_synonym store = "json list"

definition deepClone :: "store \<Rightarrow> nat \<Rightarrow> store \<times> nat" where
  "deepClone s document = (s @ [s ! document], length s)"

text \<open>
  \<^verbatim>\<open>applyPatch(document, patch, true, true)\<close>: with \<^verbatim>\<open>mutateDocument\<close> true every
  operation changes the cell of \<^verbatim>\<open>document\<close>, and the first error ends the loop. The
  result is the address of \<^verbatim>\<open>newDocument\<close>. (An operation that throws half way may leave
  its cell partly changed; the model keeps the cell as it was before that operation.)
\<close>

fun applyPatch :: "store \<Rightarrow> nat \<Rightarrow> operation list \<Rightarrow> store \<times> (error + nat)" where
  "applyPatch s document [] = (s, Inr document)"
| "applyPatch s document (x # xs) =
     (case applyOperation (s ! document) x of
        Inl e \<Rightarrow> (s, Inl e)
      | Inr doc' \<Rightarrow> applyPatch (s[document := doc']) document xs)"

section \<open>Semantic validation and application (validate.ts, lines 39 to 115)\<close>

definition pointerParent :: "string \<Rightarrow> string option" where
  "pointerParent path =
     (if path = [] then None
      else (let segments = butlast (split_slash path)
            in if length segments \<le> 1 then Some ''/''
               else (let j = join_slash segments in Some (if j = [] then ''/'' else j))))"

definition getType :: "jsval \<Rightarrow> string" where
  "getType v =
     (case v of
        None \<Rightarrow> ''undefined''
      | Some JNull \<Rightarrow> ''null''
      | Some (JArr xs) \<Rightarrow> ''array''
      | Some (JBool b) \<Rightarrow> ''boolean''
      | Some (JNum n) \<Rightarrow> ''number''
      | Some (JStr s) \<Rightarrow> ''string''
      | Some (JObj m) \<Rightarrow> ''object'')"

text \<open>
  \<^verbatim>\<open>pathExists\<close>: true when \<^verbatim>\<open>getValueByPointer\<close> returns, false when it throws. Where
  the model of \<^verbatim>\<open>getValueByPointer\<close> stops, so do \<open>pathExists\<close>, \<open>parentExists\<close> and the
  check of the operation.
\<close>

definition pathExists :: "json \<Rightarrow> string \<Rightarrow> error + bool" where
  "pathExists document pointer =
     (case getValueByPointer document pointer of
        Inl e \<Rightarrow> if e = Unmodelled then Inl Unmodelled else Inr False
      | Inr v \<Rightarrow> Inr True)"

definition parentExists :: "json \<Rightarrow> string \<Rightarrow> error + bool" where
  "parentExists document pointer =
     (if pointer = ''/'' \<or> pointer = [] then Inr True
      else (case pointerParent pointer of
              None \<Rightarrow> Inr True
            | Some parent \<Rightarrow>
                if parent = [] then Inr True
                else if parent = ''/'' \<and> length (split_slash pointer) = 2 then Inr True
                else pathExists document parent))"

text \<open>The body of the loop of \<^verbatim>\<open>validatePatchSemantics\<close>: the error thrown, if any.\<close>

definition check_op :: "json \<Rightarrow> operation \<Rightarrow> error option" where
  "check_op document x =
     (case (if op_kind x = Replace \<or> op_kind x = Remove \<or> op_kind x = Test
            then pathExists document (op_path x) else Inr True) of
        Inl e \<Rightarrow> Some e
      | Inr exists \<Rightarrow>
     if \<not> exists then Some (PathNotFound (op_path x) (op_kind x))
     else
     (case (if op_kind x = Add then parentExists document (op_path x) else Inr True) of
        Inl e \<Rightarrow> Some e
      | Inr parent \<Rightarrow>
     if \<not> parent then Some (ParentMissing (op_path x))
     else
     (case (if (op_kind x = Move \<or> op_kind x = Copy) \<and> \<not> from_falsy (op_from x)
            then pathExists document (case op_from x of Some f \<Rightarrow> f | None \<Rightarrow> [])
            else Inr True) of
        Inl e \<Rightarrow> Some e
      | Inr source \<Rightarrow>
     if \<not> source
     then Some (SourceNotFound (case op_from x of Some f \<Rightarrow> f | None \<Rightarrow> []) (op_kind x))
     else if op_kind x = Replace \<and> op_value x \<noteq> None
     then (case getValueByPointer document (op_path x) of
             Inl e \<Rightarrow> Some e
           | Inr current \<Rightarrow>
               if current \<noteq> Some JNull \<and> op_value x \<noteq> Some JNull
                    \<and> getType current \<noteq> getType (op_value x)
               then Some (TypeMismatch (op_path x) (getType current) (getType (op_value x)))
               else None)
     else None)))"

fun validatePatchSemantics :: "json \<Rightarrow> operation list \<Rightarrow> error + unit" where
  "validatePatchSemantics document [] = Inr ()"
| "validatePatchSemantics document (x # xs) =
     (case check_op document x of
        Some e \<Rightarrow> Inl e
      | None \<Rightarrow> validatePatchSemantics document xs)"

text \<open>
  \<^verbatim>\<open>applyPatchWithValidation(document, patch)\<close>: clone, validate the clone, patch the
  clone in place. The result is the store after the call and either the error thrown or
  the address of the returned document.
\<close>

definition applyPatchWithValidation :: "store \<Rightarrow> nat \<Rightarrow> operation list \<Rightarrow> store \<times> (error + nat)" where
  "applyPatchWithValidation s document patch =
     (let (s1, workingDocument) = deepClone s document
      in case validatePatchSemantics (s1 ! workingDocument) patch of
           Inl e \<Rightarrow> (s1, Inl e)
         | Inr u \<Rightarrow> applyPatch s1 workingDocument patch)"

text \<open>
  What a caller holding the document \<open>D\<close> observes of \<^verbatim>\<open>applyPatchWithValidation(D, P)\<close>:
  the error, or the contents of the returned document.
\<close>

definition apply_result :: "json \<Rightarrow> operation list \<Rightarrow> error + json" where
  "apply_result D P =
     (case applyPatchWithValidation [D] 0 P of
        (s, Inl e) \<Rightarrow> Inl e
      | (s, Inr r) \<Rightarrow> Inr (s ! r))"

section \<open>The sample document of the tests\<close>

text \<open>\<^verbatim>\<open>sampleDoc\<close> of \<^verbatim>\<open>validate.test.ts\<close>.\<close>

definition sampleDoc :: json where
  "sampleDoc =
     JObj (fmap_of_list
       [(''metadata'', JObj (fmap_of_list [(''name'', JStr ''Init''), (''author'', JStr ''Test'')])),
        (''data'', JObj (fmap_of_list
           [(''osc1'', JObj (fmap_of_list [(''level'', JNum (1 / 2)), (''wave'', JStr ''saw'')])),
            (''filter'', JObj (fmap_of_list [(''cutoff'', JNum 200)]))]))])"

section \<open>Notions used to state and prove the properties\<close>

text \<open>
  The definitions of this section are not taken from the source; they describe documents
  and pointers so that the properties of the code can be stated.

  \<open>pointer_of ks\<close> is the pointer with the (escaped) segments \<open>ks\<close>:
  \<^verbatim>\<open>/k1/k2/.../kn\<close>, and the empty string for no segment. The segments are well formed
  when none contains a slash and none unescapes to \<^verbatim>\<open>__proto__\<close> or \<^verbatim>\<open>prototype\<close>, the
  keys the library refuses. \<open>builtin_name k\<close> says that \<open>k\<close> names a member of one of
  the built-in prototypes.
\<close>

definition pointer_of :: "string list \<Rightarrow> string" where
  "pointer_of ks = join_slash ([] # ks)"

definition plain :: "string \<Rightarrow> bool" where
  "plain raw = (unescapePathComponent raw \<noteq> ''__proto__'' \<and> unescapePathComponent raw \<noteq> ''prototype'')"

definition well_formed_keys :: "string list \<Rightarrow> bool" where
  "well_formed_keys ks = (list_all plain ks \<and> list_all (\<lambda>k. CHR ''/'' \<notin> set k) ks)"

definition builtin_name :: "string \<Rightarrow> bool" where
  "builtin_name k =
     (k \<in> set (array_prototype_names @ string_prototype_names @ number_prototype_names))"

text \<open>
  \<^verbatim>\<open>resolve\<close> of the specification (section 4.1): \<open>resolve D ks\<close> follows the keys
  \<open>ks\<close> from \<open>D\<close>, each step requiring the current node to be an object that has
  the key, or an array of which the key is an index. An index is here a decimal numeral
  without sign and without leading zeros, below \<open>2 ^ 31\<close> and below the length of the
  array.
\<close>

definition array_index :: "string \<Rightarrow> nat option" where
  "array_index k =
     (case canonical_index k of
        None \<Rightarrow> None
      | Some n \<Rightarrow> if n < 2 ^ 31 then Some n else None)"

fun child :: "json \<Rightarrow> string \<Rightarrow> json option" where
  "child (JObj m) k = fmlookup m k"
| "child (JArr xs) k =
     (case array_index k of
        None \<Rightarrow> None
      | Some n \<Rightarrow> if n < length xs then Some (xs ! n) else None)"
| "child d k = None"

fun resolve :: "json \<Rightarrow> string list \<Rightarrow> json option" where
  "resolve d [] = Some d"
| "resolve d (k # ks) = (case child d k of None \<Rightarrow> None | Some c \<Rightarrow> resolve c ks)"

text \<open>
  \<open>dead_end d k\<close>: the value \<open>d\<close> has nothing under the key \<open>k\<close>, and \<open>k\<close> is no
  other name by which JavaScript would find something in \<open>d\<close>: \<open>d\<close> is an object
  without the key, an array or a string and \<open>k\<close> an index beyond its end or a word other
  than \<^verbatim>\<open>length\<close>, or a number or a boolean; and \<open>k\<close> names no built-in member.

  \<open>unreachable D ks\<close>: the pointer cannot be followed up to its parent. On the way from
  \<open>D\<close> a segment that is not the last one meets a dead end, or a segment (the last one
  included) is to be read from \<^verbatim>\<open>null\<close>.
\<close>

fun dead_end :: "json \<Rightarrow> string \<Rightarrow> bool" where
  "dead_end JNull k = True"
| "dead_end (JObj m) k = (fmlookup m k = None \<and> \<not> builtin_name k)"
| "dead_end (JArr xs) k =
     (\<not> builtin_name k \<and> k \<noteq> ''length'' \<and>
      (case array_index k of Some n \<Rightarrow> length xs \<le> n | None \<Rightarrow> \<not> isInteger k))"
| "dead_end (JStr s) k =
     (\<not> builtin_name k \<and> k \<noteq> ''length'' \<and>
      (case array_index k of Some n \<Rightarrow> length s \<le> n | None \<Rightarrow> \<not> isInteger k))"
| "dead_end (JNum n) k = (\<not> builtin_name k)"
| "dead_end (JBool b) k = (\<not> builtin_name k)"


text \<open>
  \<open>has_parent D ks\<close>: all keys but the last can be followed and lead to an object, or to
  an array when the last key is an index; the last key may be present or not.
  \<open>addable D ks\<close>: moreover, when the parent is an array, the last key is the position
  after its last element.
\<close>

fun has_parent :: "json \<Rightarrow> string list \<Rightarrow> bool" where
  "has_parent (JObj m) [k] = True"
| "has_parent (JArr xs) [k] = (array_index k \<noteq> None)"
| "has_parent d (k # k' # ks) =
     (case child d k of None \<Rightarrow> False | Some c \<Rightarrow> has_parent c (k' # ks))"
| "has_parent d ks = False"

fun addable :: "json \<Rightarrow> string list \<Rightarrow> bool" where
  "addable (JObj m) [k] = True"
| "addable (JArr xs) [k] = (array_index k = Some (length xs))"
| "addable d (k # k' # ks) =
     (case child d k of None \<Rightarrow> False | Some c \<Rightarrow> addable c (k' # ks))"
| "addable d ks = False"

text \<open>
  \<open>shifts D ks js\<close>: the pointer \<open>ks\<close> ends at an element of an array, and the pointer
  \<open>js\<close> passes through that array at a later index, so that removing the element moves
  what \<open>js\<close> addresses.
\<close>

fun shifts :: "json \<Rightarrow> string list \<Rightarrow> string list \<Rightarrow> bool" where
  "shifts (JArr xs) [k] (j # js) =
     (case (array_index k, array_index j) of (Some n, Some m) \<Rightarrow> n < m | _ \<Rightarrow> False)"
| "shifts d (k # k' # ks) (j # js) =
     (k = j \<and> (case child d k of None \<Rightarrow> False | Some c \<Rightarrow> shifts c (k' # ks) js))"
| "shifts d ks js = False"

text \<open>
  Removing the value at the end of a path and adding a value there: a member of an object
  is dropped and set, an element of an array is taken out and put in at its index. Below,
  \<open>tree_leaf\<close> is the operation of \<open>obj_leaf\<close> or \<open>arr_leaf\<close> carried to the end of a
  path.
\<close>

fun put_child :: "json \<Rightarrow> string \<Rightarrow> json \<Rightarrow> json" where
  "put_child (JObj m) k c = JObj (fmupd k c m)"
| "put_child (JArr xs) k c =
     (case array_index k of None \<Rightarrow> JArr xs | Some n \<Rightarrow> JArr (xs[n := c]))"
| "put_child d k c = d"

fun tree_del :: "string list \<Rightarrow> json \<Rightarrow> json" where
  "tree_del [k] (JObj m) = JObj (fmdrop k m)"
| "tree_del [k] (JArr xs) =
     (case array_index k of None \<Rightarrow> JArr xs | Some n \<Rightarrow> JArr (take n xs @ drop (Suc n) xs))"
| "tree_del (k # k' # ks) d =
     (case child d k of None \<Rightarrow> d | Some c \<Rightarrow> put_child d k (tree_del (k' # ks) c))"
| "tree_del ks d = d"

fun tree_set :: "string list \<Rightarrow> json \<Rightarrow> json \<Rightarrow> json" where
  "tree_set [k] v (JObj m) = JObj (fmupd k v m)"
| "tree_set [k] v (JArr xs) =
     (case array_index k of None \<Rightarrow> JArr xs | Some n \<Rightarrow> JArr (take n xs @ v # drop n xs))"
| "tree_set (k # k' # ks) v d =
     (case child d k of None \<Rightarrow> d | Some c \<Rightarrow> put_child d k (tree_set (k' # ks) v c))"
| "tree_set ks v d = d"

fun tree_leaf :: "leaf_op \<Rightarrow> string list \<Rightarrow> json \<Rightarrow> error + (json \<times> jsval) option" where
  "tree_leaf lop [k] (JObj m) = obj_leaf lop (JObj m) k"
| "tree_leaf lop [k] (JArr xs) =
     (case array_index k of None \<Rightarrow> Inl Unmodelled | Some n \<Rightarrow> arr_leaf lop xs (Num (int n)))"
| "tree_leaf lop (k # k' # ks) d =
     (case child d k of
        None \<Rightarrow> Inl Unmodelled
      | Some c \<Rightarrow>
          (case tree_leaf lop (k' # ks) c of
             Inl e \<Rightarrow> Inl e
           | Inr None \<Rightarrow> Inr None
           | Inr (Some (c', r)) \<Rightarrow> Inr (Some (put_child d k c', r))))"
| "tree_leaf lop ks d = Inl Unmodelled"

text \<open>
  What a path sees of a document: the value it leads to, whether its parent is there, and
  whether a value can be added at its end. A change elsewhere in the document leaves it
  the same.
\<close>

definition view :: "json \<Rightarrow> string list \<Rightarrow> json option \<times> bool" where
  "view d ks = (resolve d ks, has_parent d ks)"

definition full_view :: "json \<Rightarrow> string list \<Rightarrow> json option \<times> bool \<times> bool" where
  "full_view d ks = (resolve d ks, has_parent d ks, addable d ks)"

section \<open>Properties of structural validation\<close>

text \<open>
  After the leading slash, the pattern accepts exactly the strings in which every
  \<^verbatim>\<open>~\<close> is directly followed by \<^verbatim>\<open>0\<close> or \<^verbatim>\<open>1\<close>.
\<close>

lemma pointer_tail_iff:
  "pointer_tail s \<longleftrightarrow>
     (\<forall>xs ys. s = xs @ CHR ''~'' # ys \<longrightarrow> (\<exists>d ds. ys = d # ds \<and> (d = CHR ''0'' \<or> d = CHR ''1'')))"
proof
  assume pt: "pointer_tail s"
  show "\<forall>xs ys. s = xs @ CHR ''~'' # ys \<longrightarrow> (\<exists>d ds. ys = d # ds \<and> (d = CHR ''0'' \<or> d = CHR ''1''))"
  proof (intro allI impI)
    fix xs ys
    assume s: "s = xs @ CHR ''~'' # ys"
    from pt s show "\<exists>d ds. ys = d # ds \<and> (d = CHR ''0'' \<or> d = CHR ''1'')"
    proof (induction s arbitrary: xs rule: pointer_tail.induct)
      case 1
      then show ?case by simp
    next
      case (2 c cs)
      show ?case
      proof (cases xs)
        case Nil
        with 2 show ?thesis by (auto split: list.splits)
      next
        case (Cons x xs')
        note xs = Cons
        show ?thesis
        proof (cases "c = CHR ''~''")
          case False
          with 2 xs show ?thesis by auto
        next
          case True
          with 2(3) obtain d ds where cs: "cs = d # ds" and d: "d = CHR ''0'' \<or> d = CHR ''1''"
            and ds: "pointer_tail ds"
            by (auto split: list.splits)
          from d have "d \<noteq> CHR ''~''" by auto
          with 2(4) xs cs obtain xs'' where "xs' = d # xs''" and "ds = xs'' @ CHR ''~'' # ys"
            by (cases xs') auto
          with 2(1)[OF True cs ds] True cs show ?thesis by auto
        qed
      qed
    qed
  qed
next
  show "\<forall>xs ys. s = xs @ CHR ''~'' # ys \<longrightarrow> (\<exists>d ds. ys = d # ds \<and> (d = CHR ''0'' \<or> d = CHR ''1''))
    \<Longrightarrow> pointer_tail s"
  proof (induction s rule: pointer_tail.induct)
    case 1
    then show ?case by simp
  next
    case (2 c cs)
    show ?case
    proof (cases "c = CHR ''~''")
      case False
      have "\<forall>xs ys. cs = xs @ CHR ''~'' # ys \<longrightarrow> (\<exists>d ds. ys = d # ds \<and> (d = CHR ''0'' \<or> d = CHR ''1''))"
      proof (intro allI impI)
        fix xs ys assume "cs = xs @ CHR ''~'' # ys"
        then have "c # cs = (c # xs) @ CHR ''~'' # ys" by simp
        with 2(3) show "\<exists>d ds. ys = d # ds \<and> (d = CHR ''0'' \<or> d = CHR ''1'')" by blast
      qed
      with 2(2)[OF False] False show ?thesis by simp
    next
      case True
      then have "c # cs = [] @ CHR ''~'' # cs" by simp
      with 2(3) obtain d ds where cs: "cs = d # ds" and d: "d = CHR ''0'' \<or> d = CHR ''1''"
        by blast
      have "\<forall>xs ys. ds = xs @ CHR ''~'' # ys \<longrightarrow> (\<exists>d ds. ys = d # ds \<and> (d = CHR ''0'' \<or> d = CHR ''1''))"
      proof (intro allI impI)
        fix xs ys assume "ds = xs @ CHR ''~'' # ys"
        with cs have "c # cs = (c # d # xs) @ CHR ''~'' # ys" by simp
        with 2(3) show "\<exists>d ds. ys = d # ds \<and> (d = CHR ''0'' \<or> d = CHR ''1'')" by blast
      qed
      with 2(1)[OF True cs] True cs d show ?thesis by simp
    qed
  qed
qed

text \<open>
  The pattern accepts exactly the strings that start with a slash and in which every
  \<^verbatim>\<open>~\<close> is directly followed by \<^verbatim>\<open>0\<close> or \<^verbatim>\<open>1\<close>; the empty string is not among
  them.
\<close>

lemma jsonPointerPattern_iff:
  "jsonPointerPattern s \<longleftrightarrow>
     (\<exists>cs. s = CHR ''/'' # cs) \<and>
     (\<forall>xs ys. s = xs @ CHR ''~'' # ys \<longrightarrow> (\<exists>d ds. ys = d # ds \<and> (d = CHR ''0'' \<or> d = CHR ''1'')))"
proof (cases s)
  case Nil
  then show ?thesis by (simp add: jsonPointerPattern_def)
next
  case (Cons c cs)
  show ?thesis
  proof (cases "c = CHR ''/''")
    case False
    with Cons show ?thesis by (simp add: jsonPointerPattern_def)
  next
    case True
    have "jsonPointerPattern s = pointer_tail s"
      using Cons True by (simp add: jsonPointerPattern_def)
    moreover have "\<exists>cs. s = CHR ''/'' # cs" using Cons True by simp
    ultimately show ?thesis using pointer_tail_iff[of s] by simp
  qed
qed

text \<open>
  C4. The specification counts the empty string, the pointer of the root, among the
  well-formed paths. \<^verbatim>\<open>jsonPointerPattern\<close> demands a leading slash, so
  \<^verbatim>\<open>validatePatchStructure\<close> rejects the patch
  \<^verbatim>\<open>[{"op": "remove", "path": ""}]\<close> with the issue \<^verbatim>\<open>Invalid JSON Pointer\<close>, although
  \<^verbatim>\<open>pointerParent\<close> and \<^verbatim>\<open>parentExists\<close> both provide for the empty pointer.
\<close>

theorem validatePatchStructure_rejects_empty_path:
  "validatePatchStructure
     (JArr [JObj (fmap_of_list [(''op'', JStr ''remove''), (''path'', JStr [])])])
   = Inl [Invalid_JSON_Pointer]"
  by (simp add: validatePatchStructure_def patchSchema_def operationSchema_def z_op_def
      z_path_def z_from_def op_names_def jsonPointerPattern_def superRefine_def)

lemma patch_issues: "fst (patchSchema (JArr items)) = concat (map (\<lambda>j. fst (operationSchema j)) items)"
  by (simp add: patchSchema_def Let_def comp_def)

lemma vps_Inl: "fst (patchSchema j) \<noteq> [] \<Longrightarrow> validatePatchStructure j = Inl (fst (patchSchema j))"
  by (cases "patchSchema j") (auto simp: validatePatchStructure_def split: list.splits option.splits)

lemma vps_member:
  assumes "i \<in> set (fst (operationSchema j))"
  shows "\<exists>is. validatePatchStructure (JArr (pre @ j # post)) = Inl is \<and> i \<in> set is"
proof -
  let ?p = "JArr (pre @ j # post)"
  have "i \<in> set (fst (patchSchema ?p))"
    using assms by (auto simp: patch_issues)
  moreover then have "fst (patchSchema ?p) \<noteq> []" by auto
  ultimately show ?thesis using vps_Inl by blast
qed

lemma vps_single_I:
  "operationSchema j = ([], Some x) \<Longrightarrow> validatePatchStructure (JArr [j]) = Inr [x]"
  by (simp add: validatePatchStructure_def patchSchema_def)

lemma vps_single_D:
  "validatePatchStructure (JArr [j]) = Inr [x] \<Longrightarrow> operationSchema j = ([], Some x)"
  by (cases "operationSchema j")
     (auto simp: validatePatchStructure_def patchSchema_def split: list.splits option.splits)

lemma opschema_typed:
  assumes "fmlookup m ''op'' = Some (JStr s)" and "map_of op_names s = Some k"
    and "fmlookup m ''path'' = Some (JStr p)"
    and "fmlookup m ''from'' = None \<or> (\<exists>f. fmlookup m ''from'' = Some (JStr f))"
  shows "operationSchema (JObj m) =
    (let x = \<lparr>op_kind = k, op_path = p,
              op_from = (case fmlookup m ''from'' of Some (JStr f) \<Rightarrow> Some f | _ \<Rightarrow> None),
              op_value = fmlookup m ''value''\<rparr>
     in ((if jsonPointerPattern p then [] else [Invalid_JSON_Pointer]) @ superRefine x, Some x))"
  using assms by (auto simp: operationSchema_def z_op_def z_path_def z_from_def Let_def)

lemma opschema_untyped_value:
  assumes "fmlookup m ''op'' = Some (JStr s)" and "map_of op_names s = Some k"
    and "k = Add \<or> k = Replace \<or> k = Test" and "fmlookup m ''value'' = None"
  shows "fst (operationSchema (JObj m)) \<noteq> []"
  using assms
  by (auto simp: operationSchema_def z_op_def z_path_def z_from_def superRefine_def Let_def
      split: option.splits json.splits prod.splits if_splits)

lemma those_map_Some: "those (map Some xs) = Some xs"
  by (induction xs) simp_all

lemma those_append:
  "those (xs @ ys) =
     (case those xs of None \<Rightarrow> None
      | Some a \<Rightarrow> (case those ys of None \<Rightarrow> None | Some b \<Rightarrow> Some (a @ b)))"
  by (induction xs) (auto split: option.splits)

lemma vps_Inr_D:
  assumes "validatePatchStructure (JArr items) = Inr ops"
  shows "concat (map (\<lambda>j. fst (operationSchema j)) items) = []
         \<and> those (map (\<lambda>j. snd (operationSchema j)) items) = Some ops"
  using assms
  by (auto simp: validatePatchStructure_def patchSchema_def Let_def comp_def
      split: list.splits option.splits)

lemma vps_Inr_I:
  assumes "concat (map (\<lambda>j. fst (operationSchema j)) items) = []"
    and "those (map (\<lambda>j. snd (operationSchema j)) items) = Some ops"
  shows "validatePatchStructure (JArr items) = Inr ops"
  using assms
  by (simp add: validatePatchStructure_def patchSchema_def Let_def comp_def
      del: concat_eq_Nil_conv)

lemma vps_insert:
  assumes "validatePatchStructure (JArr pre) = Inr xs"
    and "validatePatchStructure (JArr post) = Inr ys"
    and "operationSchema j = ([], Some x)"
  shows "validatePatchStructure (JArr (pre @ j # post)) = Inr (xs @ x # ys)"
  using vps_Inr_D[OF assms(1)] vps_Inr_D[OF assms(2)] assms(3)
  by (intro vps_Inr_I) (simp_all add: those_append)

text \<open>
  C8, as amended. An \<^verbatim>\<open>add\<close>, \<^verbatim>\<open>replace\<close> or \<^verbatim>\<open>test\<close> operation without a \<^verbatim>\<open>value\<close> field
  makes \<^verbatim>\<open>validatePatchStructure\<close> fail, wherever it stands in the patch. When the
  \<^verbatim>\<open>path\<close> of the operation is a string and its \<^verbatim>\<open>from\<close> is absent or a string, the issue
  \<^verbatim>\<open>requires a value\<close> is among those reported. The same operation with a \<^verbatim>\<open>value\<close> field
  holding \<^verbatim>\<open>null\<close> and a well-formed path raises no issue: between operations that are
  accepted it is accepted, whatever string its \<^verbatim>\<open>from\<close> may hold, and the parsed
  operation carries the \<^verbatim>\<open>null\<close>.
\<close>

theorem missing_value_rejected_null_accepted:
  assumes "fmlookup m ''op'' = Some (JStr s)" and "map_of op_names s = Some k"
    and "k = Add \<or> k = Replace \<or> k = Test"
  shows "(fmlookup m ''value'' = None \<longrightarrow>
            (\<exists>is. validatePatchStructure (JArr (pre @ JObj m # post)) = Inl is)) \<and>
         (fmlookup m ''value'' = None \<and> fmlookup m ''path'' = Some (JStr p)
            \<and> (fmlookup m ''from'' = None \<or> (\<exists>f. fmlookup m ''from'' = Some (JStr f))) \<longrightarrow>
            (\<exists>is. validatePatchStructure (JArr (pre @ JObj m # post)) = Inl is
                  \<and> Requires_a_value k \<in> set is)) \<and>
         (fmlookup m ''value'' = Some JNull \<and> fmlookup m ''path'' = Some (JStr p)
            \<and> jsonPointerPattern p
            \<and> (fmlookup m ''from'' = None \<or> (\<exists>f. fmlookup m ''from'' = Some (JStr f)))
            \<and> validatePatchStructure (JArr pre) = Inr xs
            \<and> validatePatchStructure (JArr post) = Inr ys \<longrightarrow>
            validatePatchStructure (JArr (pre @ JObj m # post)) =
              Inr (xs @ \<lparr>op_kind = k, op_path = p,
                         op_from = (case fmlookup m ''from'' of Some (JStr f) \<Rightarrow> Some f | _ \<Rightarrow> None),
                         op_value = Some JNull\<rparr> # ys))"
proof (intro conjI impI)
  assume v: "fmlookup m ''value'' = None"
  from opschema_untyped_value[OF assms v] obtain i where "i \<in> set (fst (operationSchema (JObj m)))"
    by (cases "fst (operationSchema (JObj m))") auto
  from vps_member[OF this] show "\<exists>is. validatePatchStructure (JArr (pre @ JObj m # post)) = Inl is"
    by blast
next
  assume a: "fmlookup m ''value'' = None \<and> fmlookup m ''path'' = Some (JStr p)
            \<and> (fmlookup m ''from'' = None \<or> (\<exists>f. fmlookup m ''from'' = Some (JStr f)))"
  then have "Requires_a_value k \<in> set (fst (operationSchema (JObj m)))"
    using assms(3) by (auto simp: opschema_typed[OF assms(1,2)] superRefine_def Let_def)
  from vps_member[OF this]
  show "\<exists>is. validatePatchStructure (JArr (pre @ JObj m # post)) = Inl is \<and> Requires_a_value k \<in> set is" .
next
  assume a: "fmlookup m ''value'' = Some JNull \<and> fmlookup m ''path'' = Some (JStr p)
            \<and> jsonPointerPattern p
            \<and> (fmlookup m ''from'' = None \<or> (\<exists>f. fmlookup m ''from'' = Some (JStr f)))
            \<and> validatePatchStructure (JArr pre) = Inr xs
            \<and> validatePatchStructure (JArr post) = Inr ys"
  let ?x = "\<lparr>op_kind = k, op_path = p,
             op_from = (case fmlookup m ''from'' of Some (JStr f) \<Rightarrow> Some f | _ \<Rightarrow> None),
             op_value = Some JNull\<rparr>"
  from a have "operationSchema (JObj m) = ([], Some ?x)"
    using assms(3) by (auto simp: opschema_typed[OF assms(1,2)] superRefine_def Let_def)
  with a show "validatePatchStructure (JArr (pre @ JObj m # post)) = Inr (xs @ ?x # ys)"
    by (intro vps_insert) simp_all
qed

theorem missing_value_rejected_null_accepted_witness:
  "validatePatchStructure (JArr [JObj (fmap_of_list [(''op'', JStr ''add''), (''path'', JStr ''/a'')])])
      = Inl [Requires_a_value Add] \<and>
   validatePatchStructure
     (JArr [JObj (fmap_of_list [(''op'', JStr ''remove''), (''path'', JStr ''/b'')]),
            JObj (fmap_of_list [(''op'', JStr ''add''), (''path'', JStr ''/a''), (''value'', JNull),
                                (''from'', JStr ''x'')])])
      = Inr [\<lparr>op_kind = Remove, op_path = ''/b'', op_from = None, op_value = None\<rparr>,
             \<lparr>op_kind = Add, op_path = ''/a'', op_from = Some ''x'', op_value = Some JNull\<rparr>]"
proof -
  let ?m = "fmap_of_list [(''op'', JStr ''add''), (''path'', JStr ''/a''), (''value'', JNull),
                          (''from'', JStr ''x'')]"
  let ?r = "JObj (fmap_of_list [(''op'', JStr ''remove''), (''path'', JStr ''/b'')])"
  have 1: "fmlookup ?m ''op'' = Some (JStr ''add'')" by simp
  have 2: "map_of op_names ''add'' = Some Add" by (simp add: op_names_def)
  have 3: "Add = Add \<or> Add = Replace \<or> Add = Test" by simp
  have pre: "validatePatchStructure (JArr [?r]) =
      Inr [\<lparr>op_kind = Remove, op_path = ''/b'', op_from = None, op_value = None\<rparr>]"
    by (simp add: validatePatchStructure_def patchSchema_def operationSchema_def z_op_def
        z_path_def z_from_def op_names_def jsonPointerPattern_def superRefine_def)
  have post: "validatePatchStructure (JArr []) = Inr []"
    by (simp add: validatePatchStructure_def patchSchema_def)
  have 4: "fmlookup ?m ''value'' = Some JNull \<and> fmlookup ?m ''path'' = Some (JStr ''/a'')
            \<and> jsonPointerPattern ''/a''
            \<and> (fmlookup ?m ''from'' = None \<or> (\<exists>f. fmlookup ?m ''from'' = Some (JStr f)))
            \<and> validatePatchStructure (JArr [?r]) =
                 Inr [\<lparr>op_kind = Remove, op_path = ''/b'', op_from = None, op_value = None\<rparr>]
            \<and> validatePatchStructure (JArr []) = Inr []"
    using pre post by (simp add: jsonPointerPattern_def)
  from missing_value_rejected_null_accepted[OF 1 2 3, where p = "''/a''" and pre = "[?r]"
      and post = "[]"
      and xs = "[\<lparr>op_kind = Remove, op_path = ''/b'', op_from = None, op_value = None\<rparr>]"
      and ys = "[]"] 4
  have "validatePatchStructure (JArr ([?r] @ JObj ?m # [])) =
      Inr ([\<lparr>op_kind = Remove, op_path = ''/b'', op_from = None, op_value = None\<rparr>] @
           \<lparr>op_kind = Add, op_path = ''/a'',
             op_from = (case fmlookup ?m ''from'' of Some (JStr f) \<Rightarrow> Some f | _ \<Rightarrow> None),
             op_value = Some JNull\<rparr> # [])"
    by blast
  moreover have "validatePatchStructure (JArr [JObj (fmap_of_list [(''op'', JStr ''add''), (''path'', JStr ''/a'')])])
      = Inl [Requires_a_value Add]"
    by (simp add: validatePatchStructure_def patchSchema_def operationSchema_def z_op_def
        z_path_def z_from_def op_names_def jsonPointerPattern_def superRefine_def)
  ultimately show ?thesis by simp
qed

text \<open>
  The claim as stated fails for an operation whose \<^verbatim>\<open>path\<close> is not a string: the object
  schema stops at the wrong type, the refinement that asks for the value is not run, and
  the only issue reported is the type of \<^verbatim>\<open>path\<close>.
\<close>

theorem missing_value_counterexample:
  "validatePatchStructure
     (JArr [JObj (fmap_of_list [(''op'', JStr ''add''), (''path'', JNum 5)])])
   = Inl [Invalid_type ''path'']"
  by (simp add: validatePatchStructure_def patchSchema_def operationSchema_def z_op_def
      z_path_def z_from_def op_names_def)

text \<open>
  C9. For an operation of kind \<^verbatim>\<open>add\<close>, \<^verbatim>\<open>remove\<close>, \<^verbatim>\<open>replace\<close> or \<^verbatim>\<open>test\<close> the
  \<^verbatim>\<open>from\<close> field is not checked against the pointer pattern: an accepted operation stays
  accepted when it is given any string as \<^verbatim>\<open>from\<close>, which is passed through. For
  \<^verbatim>\<open>move\<close> and \<^verbatim>\<open>copy\<close> a non-empty \<^verbatim>\<open>from\<close> outside the pattern is reported as
  \<^verbatim>\<open>Invalid from pointer\<close>.
\<close>

theorem from_grammar_only_for_move_copy:
  assumes "fmlookup m ''op'' = Some (JStr s)" and "map_of op_names s = Some k"
    and "fmlookup m ''path'' = Some (JStr p)"
  shows "(k \<noteq> Move \<and> k \<noteq> Copy
            \<and> validatePatchStructure (JArr [JObj (fmdrop ''from'' m)]) = Inr [x] \<longrightarrow>
            validatePatchStructure (JArr [JObj (fmupd ''from'' (JStr f) m)])
              = Inr [x\<lparr>op_from := Some f\<rparr>]) \<and>
         ((k = Move \<or> k = Copy) \<and> f \<noteq> [] \<and> \<not> jsonPointerPattern f \<longrightarrow>
            (\<exists>is. validatePatchStructure (JArr (pre @ JObj (fmupd ''from'' (JStr f) m) # post)) = Inl is
                  \<and> Invalid_from_pointer \<in> set is))"
proof (intro conjI impI)
  assume a: "k \<noteq> Move \<and> k \<noteq> Copy
            \<and> validatePatchStructure (JArr [JObj (fmdrop ''from'' m)]) = Inr [x]"
  let ?a = "fmdrop ''from'' m" and ?b = "fmupd ''from'' (JStr f) m"
  have sa: "operationSchema (JObj ?a) =
    (let x = \<lparr>op_kind = k, op_path = p, op_from = None, op_value = fmlookup m ''value''\<rparr>
     in ((if jsonPointerPattern p then [] else [Invalid_JSON_Pointer]) @ superRefine x, Some x))"
    using assms by (subst opschema_typed[where s = s and k = k and p = p]) simp_all
  have sb: "operationSchema (JObj ?b) =
    (let x = \<lparr>op_kind = k, op_path = p, op_from = Some f, op_value = fmlookup m ''value''\<rparr>
     in ((if jsonPointerPattern p then [] else [Invalid_JSON_Pointer]) @ superRefine x, Some x))"
    using assms by (subst opschema_typed[where s = s and k = k and p = p]) simp_all
  from a have k: "k \<noteq> Move" "k \<noteq> Copy" by simp_all
  have sr: "superRefine \<lparr>op_kind = k, op_path = p, op_from = Some f, op_value = fmlookup m ''value''\<rparr>
      = superRefine \<lparr>op_kind = k, op_path = p, op_from = None, op_value = fmlookup m ''value''\<rparr>"
    using k by (simp add: superRefine_def)
  from a have "validatePatchStructure (JArr [JObj ?a]) = Inr [x]" by simp
  then have "operationSchema (JObj ?a) = ([], Some x)" by (rule vps_single_D)
  then have "operationSchema (JObj ?b) = ([], Some (x\<lparr>op_from := Some f\<rparr>))"
    unfolding sa sb by (auto simp: Let_def sr)
  then show "validatePatchStructure (JArr [JObj ?b]) = Inr [x\<lparr>op_from := Some f\<rparr>]"
    by (rule vps_single_I)
next
  assume a: "(k = Move \<or> k = Copy) \<and> f \<noteq> [] \<and> \<not> jsonPointerPattern f"
  let ?b = "fmupd ''from'' (JStr f) m"
  have sb: "operationSchema (JObj ?b) =
    (let x = \<lparr>op_kind = k, op_path = p, op_from = Some f, op_value = fmlookup m ''value''\<rparr>
     in ((if jsonPointerPattern p then [] else [Invalid_JSON_Pointer]) @ superRefine x, Some x))"
    using assms by (subst opschema_typed[where s = s and k = k and p = p]) simp_all
  have "Invalid_from_pointer \<in> set (fst (operationSchema (JObj ?b)))"
    using a by (auto simp: sb Let_def superRefine_def from_falsy_def)
  from vps_member[OF this]
  show "\<exists>is. validatePatchStructure (JArr (pre @ JObj ?b # post)) = Inl is \<and> Invalid_from_pointer \<in> set is" .
qed


theorem from_grammar_only_for_move_copy_witness:
  "validatePatchStructure
     (JArr [JObj (fmap_of_list [(''op'', JStr ''add''), (''path'', JStr ''/a''),
                                (''value'', JNum 1), (''from'', JStr ''b/c'')])])
     = Inr [\<lparr>op_kind = Add, op_path = ''/a'', op_from = Some ''b/c'', op_value = Some (JNum 1)\<rparr>] \<and>
   (\<exists>is. validatePatchStructure
     (JArr [JObj (fmap_of_list [(''op'', JStr ''move''), (''path'', JStr ''/a''),
                                (''from'', JStr ''b/c'')])]) = Inl is
      \<and> Invalid_from_pointer \<in> set is)"
proof -
  let ?m = "fmap_of_list [(''op'', JStr ''add''), (''path'', JStr ''/a''), (''value'', JNum 1)]"
  let ?x = "\<lparr>op_kind = Add, op_path = ''/a'', op_from = None, op_value = Some (JNum 1)\<rparr>"
  have 1: "fmlookup ?m ''op'' = Some (JStr ''add'')" by simp
  have 2: "map_of op_names ''add'' = Some Add" by (simp add: op_names_def)
  have 3: "fmlookup ?m ''path'' = Some (JStr ''/a'')" by simp
  have 4: "validatePatchStructure (JArr [JObj (fmdrop ''from'' ?m)]) = Inr [?x]"
    by (simp add: validatePatchStructure_def patchSchema_def operationSchema_def z_op_def
        z_path_def z_from_def op_names_def jsonPointerPattern_def superRefine_def)
  from from_grammar_only_for_move_copy[OF 1 2 3, where x = ?x and f = "''b/c''"] 4
  have a: "validatePatchStructure (JArr [JObj (fmupd ''from'' (JStr ''b/c'') ?m)])
      = Inr [?x\<lparr>op_from := Some ''b/c''\<rparr>]"
    by simp
  let ?n = "fmap_of_list [(''op'', JStr ''move''), (''path'', JStr ''/a'')]"
  have 5: "fmlookup ?n ''op'' = Some (JStr ''move'')" by simp
  have 6: "map_of op_names ''move'' = Some Move" by (simp add: op_names_def)
  have 7: "fmlookup ?n ''path'' = Some (JStr ''/a'')" by simp
  have 8: "\<not> jsonPointerPattern ''b/c''" by (simp add: jsonPointerPattern_def)
  from from_grammar_only_for_move_copy[OF 5 6 7, where f = "''b/c''" and pre = "[]" and post = "[]"] 8
  have b: "\<exists>is. validatePatchStructure (JArr [JObj (fmupd ''from'' (JStr ''b/c'') ?n)]) = Inl is
      \<and> Invalid_from_pointer \<in> set is"
    by simp
  have e1: "fmupd ''from'' (JStr ''b/c'') ?m =
      fmap_of_list [(''op'', JStr ''add''), (''path'', JStr ''/a''), (''value'', JNum 1), (''from'', JStr ''b/c'')]"
    by (simp add: fmupd_reorder_neq)
  have e2: "fmupd ''from'' (JStr ''b/c'') ?n =
      fmap_of_list [(''op'', JStr ''move''), (''path'', JStr ''/a''), (''from'', JStr ''b/c'')]"
    by (simp add: fmupd_reorder_neq)
  from a b show ?thesis unfolding e1 e2 by simp
qed

section \<open>Properties of semantic validation and application\<close>

lemma validatePatchSemantics_append:
  "validatePatchSemantics D (pre @ post) =
     (case validatePatchSemantics D pre of Inl e \<Rightarrow> Inl e | Inr u \<Rightarrow> validatePatchSemantics D post)"
  by (induction pre) (auto split: option.splits)



lemma getType_defined: "getType (Some v) \<noteq> ''undefined''"
  by (cases v) (simp_all add: getType_def)

lemma check_op_replace:
  assumes "op_kind x = Replace" and "op_value x = Some v"
    and "getValueByPointer D (op_path x) = Inr cur"
  shows "check_op D x =
     (if cur \<noteq> Some JNull \<and> v \<noteq> JNull \<and> getType cur \<noteq> getType (Some v)
      then Some (TypeMismatch (op_path x) (getType cur) (getType (Some v))) else None)"
  using assms by (simp add: check_op_def pathExists_def)

text \<open>
  The store: \<open>applyPatch\<close> on the last cell changes no other cell and returns the
  address it was given; its outcome depends only on the contents of that cell.
\<close>

lemma applyPatch_frame:
  "w = length s \<Longrightarrow> take w (fst (applyPatch (s @ [d]) w P)) = s"
proof (induction P arbitrary: d)
  case Nil
  then show ?case by simp
next
  case (Cons x xs)
  then show ?case by (simp split: sum.splits)
qed

lemma applyPatchWithValidation_frame:
  "take (length s) (fst (applyPatchWithValidation s a P)) = s"
  by (simp add: applyPatchWithValidation_def deepClone_def applyPatch_frame split: sum.splits)

lemma applyPatch_address:
  "snd (applyPatch s w P) = Inr r \<Longrightarrow> r = w"
  by (induction P arbitrary: s) (auto split: sum.splits)

lemma applyPatch_independent:
  assumes "w < length s" and "w' < length s'" and "s ! w = s' ! w'"
  shows "(case applyPatch s w P of (t, Inl e) \<Rightarrow> Inl e | (t, Inr r) \<Rightarrow> Inr (t ! r)) =
         (case applyPatch s' w' P of (t, Inl e) \<Rightarrow> Inl e | (t, Inr r) \<Rightarrow> Inr (t ! r))"
  using assms
proof (induction P arbitrary: s s')
  case Nil
  then show ?case by simp
next
  case (Cons x xs)
  show ?case
  proof (cases "applyOperation (s ! w) x")
    case (Inl e)
    with Cons.prems show ?thesis by simp
  next
    case (Inr d)
    have "(case applyPatch (s[w := d]) w xs of (t, Inl e) \<Rightarrow> Inl e | (t, Inr r) \<Rightarrow> Inr (t ! r)) =
          (case applyPatch (s'[w' := d]) w' xs of (t, Inl e) \<Rightarrow> Inl e | (t, Inr r) \<Rightarrow> Inr (t ! r))"
      using Cons.prems by (intro Cons.IH) simp_all
    with Inr Cons.prems show ?thesis by simp
  qed
qed

lemma apply_result_invalid:
  "validatePatchSemantics D P = Inl e \<Longrightarrow> apply_result D P = Inl e"
  by (simp add: apply_result_def applyPatchWithValidation_def deepClone_def)

lemma apply_result_single:
  "apply_result D [x] =
     (case check_op D x of Some e \<Rightarrow> Inl e | None \<Rightarrow> applyOperation D x)"
  by (simp add: apply_result_def applyPatchWithValidation_def deepClone_def
      split: option.splits sum.splits)

lemma apply_result_pair:
  "apply_result D [x, y] =
     (case check_op D x of
        Some e \<Rightarrow> Inl e
      | None \<Rightarrow>
          (case check_op D y of
             Some e \<Rightarrow> Inl e
           | None \<Rightarrow>
               (case applyOperation D x of
                  Inl e \<Rightarrow> Inl e
                | Inr D1 \<Rightarrow> applyOperation D1 y)))"
  by (simp add: apply_result_def applyPatchWithValidation_def deepClone_def
      split: option.splits sum.splits)

text \<open>
  Evaluation of the model on concrete documents: the definitions to unfold, and the
  array indices used below.
\<close>

lemmas eval_defs = sampleDoc_def check_op_def pathExists_def parentExists_def pointerParent_def
  member_or_def object_prototype_names_def
  getValueByPointer_def nv_apply_def unescapePathComponent_def from_falsy_def getType_def
  walk.simps apply_result_def applyPatchWithValidation_def deepClone_def applyOperation_def
  validator_base_def leaf_of_def validator_def validate_get_def validator_get_def truthy_def
  is_container_def move_op_def copy_op_def root_op_def is_add_def Let_def

lemma tilde_tilde_digits: "tilde_tilde ''0'' = 0" "tilde_tilde ''1'' = 1" "tilde_tilde ''2'' = 2"
  by (simp_all add: tilde_tilde_def toInt32_def round53_def dec_def digit_val_def)

lemma canonical_index_digits: "canonical_index ''0'' = Some 0" "canonical_index ''1'' = Some 1"
  "canonical_index ''2'' = Some 2" "isInteger ''0''" "isInteger ''1''" "isInteger ''2''"
  by (simp_all add: canonical_index_def isInteger_def is_digit_def dec_def digit_val_def)

lemma array_index_digits: "array_index ''0'' = Some 0" "array_index ''1'' = Some 1" "array_index ''2'' = Some 2"
  by (simp_all add: array_index_def canonical_index_digits)

text \<open>
  The tests of \<^verbatim>\<open>validate.test.ts\<close> on the model: a valid \<^verbatim>\<open>replace\<close> is accepted, a path
  without leading slash is rejected, and a valid patch is applied to a new document while
  the sample document keeps its value. (The tests of \<^verbatim>\<open>validatePatchSemantics\<close> appear
  with C3 and C5 below.)
\<close>

lemma test_accepts_valid_replace:
  "validatePatchStructure
     (JArr [JObj (fmap_of_list [(''op'', JStr ''replace''), (''path'', JStr ''/data/filter/cutoff''),
                                (''value'', JNum 800)])])
   = Inr [\<lparr>op_kind = Replace, op_path = ''/data/filter/cutoff'', op_from = None,
           op_value = Some (JNum 800)\<rparr>]"
  by (simp add: validatePatchStructure_def patchSchema_def operationSchema_def z_op_def
      z_path_def z_from_def op_names_def jsonPointerPattern_def superRefine_def)

lemma test_rejects_invalid_pointer:
  "validatePatchStructure
     (JArr [JObj (fmap_of_list [(''op'', JStr ''replace''), (''path'', JStr ''data/filter/cutoff''),
                                (''value'', JNum 800)])])
   = Inl [Invalid_JSON_Pointer]"
  by (simp add: validatePatchStructure_def patchSchema_def operationSchema_def z_op_def
      z_path_def z_from_def op_names_def jsonPointerPattern_def superRefine_def)

lemma test_applies_valid_patch:
  "(case apply_result sampleDoc
           [\<lparr>op_kind = Replace, op_path = ''/data/osc1/level'', op_from = None,
             op_value = Some (JNum (4 / 5))\<rparr>] of
      Inl e \<Rightarrow> Inl e
    | Inr patched \<Rightarrow> getValueByPointer patched ''/data/osc1/level'') = Inr (Some (JNum (4 / 5))) \<and>
   getValueByPointer sampleDoc ''/data/osc1/level'' = Inr (Some (JNum (1 / 2)))"
  by (simp add: eval_defs)

text \<open>
  C1. \<^verbatim>\<open>applyPatchWithValidation(D, P)\<close> never changes the caller's document: for every
  store \<open>s\<close>, every document address \<open>a\<close> of \<open>s\<close> and every patch \<open>P\<close>, the cell
  \<open>a\<close> holds the same document after the call as before, whether the call returns a
  document or throws; indeed every cell that existed before the call is unchanged, and a
  returned document is never the caller's own cell.
\<close>

theorem original_document_untouched:
  assumes "a < length s"
  shows "fst (applyPatchWithValidation s a P) ! a = s ! a \<and>
         take (length s) (fst (applyPatchWithValidation s a P)) = s \<and>
         snd (applyPatchWithValidation s a P) \<noteq> Inr a"
proof -
  let ?s' = "fst (applyPatchWithValidation s a P)"
  have fr: "take (length s) ?s' = s" by (rule applyPatchWithValidation_frame)
  have "?s' ! a = take (length s) ?s' ! a" using assms by simp
  with fr have 1: "?s' ! a = s ! a" by simp
  have 2: "snd (applyPatchWithValidation s a P) \<noteq> Inr a"
  proof
    assume "snd (applyPatchWithValidation s a P) = Inr a"
    then have "snd (applyPatch (s @ [s ! a]) (length s) P) = Inr a"
      by (auto simp: applyPatchWithValidation_def deepClone_def split: sum.splits)
    then have "a = length s" by (rule applyPatch_address)
    with assms show False by simp
  qed
  from 1 fr 2 show ?thesis by simp
qed

theorem original_document_untouched_witness:
  "fst (applyPatchWithValidation [sampleDoc] 0
      [\<lparr>op_kind = Replace, op_path = ''/data/osc1/level'', op_from = None,
        op_value = Some (JNum (4 / 5))\<rparr>]) ! 0 = sampleDoc \<and>
   snd (applyPatchWithValidation [sampleDoc] 0
      [\<lparr>op_kind = Replace, op_path = ''/data/osc1/level'', op_from = None,
        op_value = Some (JNum (4 / 5))\<rparr>]) = Inr 1"
proof -
  let ?P = "[\<lparr>op_kind = Replace, op_path = ''/data/osc1/level'', op_from = None,
        op_value = Some (JNum (4 / 5))\<rparr>]"
  have "(0::nat) < length [sampleDoc]" by simp
  from original_document_untouched[OF this, of ?P] have "fst (applyPatchWithValidation [sampleDoc] 0 ?P) ! 0 = sampleDoc"
    by simp
  moreover have "snd (applyPatchWithValidation [sampleDoc] 0 ?P) = Inr 1"
    by (simp add: eval_defs)
  ultimately show ?thesis by simp
qed

text \<open>
  C6. The empty patch is a valid no-op: it passes \<^verbatim>\<open>validatePatchStructure\<close>, it passes
  \<^verbatim>\<open>validatePatchSemantics\<close> against every document \<open>D\<close>, and
  \<^verbatim>\<open>applyPatchWithValidation(D, [])\<close> returns a document equal to \<open>D\<close>.
\<close>

theorem empty_patch_is_noop:
  "validatePatchStructure (JArr []) = Inr [] \<and>
   validatePatchSemantics D [] = Inr () \<and>
   apply_result D [] = Inr D"
  by (simp add: validatePatchStructure_def patchSchema_def apply_result_def
      applyPatchWithValidation_def deepClone_def)

text \<open>
  C2, as amended. Take a patch that adds a value at a path \<open>p\<close> and then replaces the
  value at the same path by a value that is not \<^verbatim>\<open>null\<close>, where \<open>p\<close> is fresh in \<open>D\<close>
  (reading \<open>p\<close> yields \<^verbatim>\<open>undefined\<close>: the parent is there, the leaf is not). Then
  \<^verbatim>\<open>validatePatchSemantics\<close> fails, and \<^verbatim>\<open>applyPatchWithValidation\<close> fails with the same
  error: it validates its working copy against the same snapshot before it applies
  anything.
\<close>

theorem add_then_replace_rejected_by_both:
  assumes "op_kind a = Add" and "op_path a = p"
    and "op_kind r = Replace" and "op_path r = p" and "op_value r = Some w"
    and "getValueByPointer D p = Inr None" and "w \<noteq> JNull"
  shows "\<exists>e. validatePatchSemantics D [a, r] = Inl e \<and> apply_result D [a, r] = Inl e"
proof -
  have "check_op D r = Some (TypeMismatch p ''undefined'' (getType (Some w)))"
    using assms getType_defined[of w]
    by (simp add: check_op_replace[where v = w and cur = None]) (simp add: getType_def)
  then have "\<exists>e. validatePatchSemantics D [a, r] = Inl e"
    by (cases "check_op D a") simp_all
  then obtain e where "validatePatchSemantics D [a, r] = Inl e" ..
  with apply_result_invalid[OF this] show ?thesis by blast
qed

theorem add_then_replace_rejected_by_both_witness:
  "\<exists>e. validatePatchSemantics sampleDoc
     [\<lparr>op_kind = Add, op_path = ''/data/filter/resonance'', op_from = None,
       op_value = Some (JNum (3 / 10))\<rparr>,
      \<lparr>op_kind = Replace, op_path = ''/data/filter/resonance'', op_from = None,
       op_value = Some (JNum (1 / 2))\<rparr>] = Inl e \<and>
    apply_result sampleDoc
     [\<lparr>op_kind = Add, op_path = ''/data/filter/resonance'', op_from = None,
       op_value = Some (JNum (3 / 10))\<rparr>,
      \<lparr>op_kind = Replace, op_path = ''/data/filter/resonance'', op_from = None,
       op_value = Some (JNum (1 / 2))\<rparr>] = Inl e"
proof -
  have "getValueByPointer sampleDoc ''/data/filter/resonance'' = Inr None"
    by (simp add: eval_defs)
  then show ?thesis
    by (intro add_then_replace_rejected_by_both[where p = "''/data/filter/resonance''" and w = "JNum (1 / 2)"]) simp_all
qed

text \<open>
  The claim as stated fails on the sample document: for the fresh path
  \<^verbatim>\<open>/data/filter/resonance\<close> the application does not succeed but is rejected with the
  error of the validation; and when the replacement value is \<^verbatim>\<open>null\<close> the validation does
  not fail.
\<close>

theorem add_then_replace_counterexample:
  "getValueByPointer sampleDoc ''/data/filter/resonance'' = Inr None \<and>
   parentExists sampleDoc ''/data/filter/resonance'' = Inr True \<and>
   apply_result sampleDoc
     [\<lparr>op_kind = Add, op_path = ''/data/filter/resonance'', op_from = None,
       op_value = Some (JNum (3 / 10))\<rparr>,
      \<lparr>op_kind = Replace, op_path = ''/data/filter/resonance'', op_from = None,
       op_value = Some (JNum (1 / 2))\<rparr>]
     = Inl (TypeMismatch ''/data/filter/resonance'' ''undefined'' ''number'') \<and>
   validatePatchSemantics sampleDoc
     [\<lparr>op_kind = Add, op_path = ''/data/filter/resonance'', op_from = None,
       op_value = Some (JNum (3 / 10))\<rparr>,
      \<lparr>op_kind = Replace, op_path = ''/data/filter/resonance'', op_from = None,
       op_value = Some JNull\<rparr>]
     = Inr ()"
  by (simp add: eval_defs)

text \<open>
  C3, as amended. Let a patch contain a \<^verbatim>\<open>replace\<close> whose path exists in \<open>D\<close> with
  the current value \<open>cur\<close>, and whose proposed value is \<open>v\<close>. If both are not
  \<^verbatim>\<open>null\<close> and their kinds differ, \<^verbatim>\<open>validatePatchSemantics\<close> fails; when the
  operations before the \<^verbatim>\<open>replace\<close> pass, it fails with the type mismatch that reports
  the kind of \<open>cur\<close> as expected and the kind of \<open>v\<close> as received. If the kinds
  agree, or one of the two values is \<^verbatim>\<open>null\<close>, the \<^verbatim>\<open>replace\<close> passes its checks and the
  validation of the patch is that of the patch without it.
\<close>

theorem replace_type_check:
  assumes "op_kind x = Replace" and "op_value x = Some v"
    and "getValueByPointer D (op_path x) = Inr (Some cur)"
  shows "(cur \<noteq> JNull \<and> v \<noteq> JNull \<and> getType (Some cur) \<noteq> getType (Some v) \<longrightarrow>
            (\<exists>e. validatePatchSemantics D (pre @ x # post) = Inl e) \<and>
            (validatePatchSemantics D pre = Inr () \<longrightarrow>
               validatePatchSemantics D (pre @ x # post) =
                 Inl (TypeMismatch (op_path x) (getType (Some cur)) (getType (Some v))))) \<and>
         (cur = JNull \<or> v = JNull \<or> getType (Some cur) = getType (Some v) \<longrightarrow>
            check_op D x = None \<and>
            validatePatchSemantics D (pre @ x # post) = validatePatchSemantics D (pre @ post))"
proof -
  note c = check_op_replace[OF assms]
  show ?thesis
    by (cases "validatePatchSemantics D pre")
       (auto simp: validatePatchSemantics_append c)
qed

theorem replace_type_check_witness:
  "validatePatchSemantics sampleDoc
     [\<lparr>op_kind = Replace, op_path = ''/data/filter/cutoff'', op_from = None,
       op_value = Some (JStr ''fast'')\<rparr>]
     = Inl (TypeMismatch ''/data/filter/cutoff'' ''number'' ''string'') \<and>
   validatePatchSemantics sampleDoc
     [\<lparr>op_kind = Replace, op_path = ''/data/filter/cutoff'', op_from = None,
       op_value = Some (JNum 512)\<rparr>]
     = Inr ()"
proof -
  let ?x = "\<lparr>op_kind = Replace, op_path = ''/data/filter/cutoff'', op_from = None,
       op_value = Some (JStr ''fast'')\<rparr>"
  let ?y = "\<lparr>op_kind = Replace, op_path = ''/data/filter/cutoff'', op_from = None,
       op_value = Some (JNum 512)\<rparr>"
  have g: "getValueByPointer sampleDoc ''/data/filter/cutoff'' = Inr (Some (JNum 200))"
    by (simp add: eval_defs)
  have "validatePatchSemantics sampleDoc ([] @ ?x # []) =
      Inl (TypeMismatch (op_path ?x) (getType (Some (JNum 200))) (getType (Some (JStr ''fast''))))"
    using replace_type_check[of ?x "JStr ''fast''" sampleDoc "JNum 200" "[]" "[]"] g
    by (simp add: getType_def)
  moreover have "validatePatchSemantics sampleDoc ([] @ ?y # []) = validatePatchSemantics sampleDoc ([] @ [])"
    using replace_type_check[of ?y "JNum 512" sampleDoc "JNum 200" "[]" "[]"] g
    by (simp add: getType_def)
  ultimately show ?thesis by (simp add: getType_def)
qed

text \<open>
  The claim as stated fails when an earlier operation of the patch fails first: the error
  is then that operation's, not the type mismatch.
\<close>

theorem type_mismatch_counterexample:
  "getValueByPointer sampleDoc ''/data/filter/cutoff'' = Inr (Some (JNum 200)) \<and>
   getType (Some (JNum 200)) = ''number'' \<and> getType (Some (JStr ''fast'')) = ''string'' \<and>
   validatePatchSemantics sampleDoc
     [\<lparr>op_kind = Remove, op_path = ''/data/lfo/rate'', op_from = None, op_value = None\<rparr>,
      \<lparr>op_kind = Replace, op_path = ''/data/filter/cutoff'', op_from = None,
       op_value = Some (JStr ''fast'')\<rparr>]
     = Inl (PathNotFound ''/data/lfo/rate'' Remove)"
  by (simp add: eval_defs)

section \<open>Pointers through objects and arrays\<close>

text \<open>
  Array indices: the numeral of an index determines it, and \<^verbatim>\<open>~~key\<close> is the index
  itself below \<open>2 ^ 31\<close>.
\<close>

lemma digit_val_lt: "is_digit c \<Longrightarrow> digit_val c < 10"
  by (auto simp: is_digit_def digit_val_def)

lemma digit_val_inj: "is_digit c \<Longrightarrow> is_digit d \<Longrightarrow> digit_val c = digit_val d \<Longrightarrow> c = d"
  by (auto simp: is_digit_def digit_val_def)

lemma digit_val_pos: "is_digit c \<Longrightarrow> c \<noteq> CHR ''0'' \<Longrightarrow> 1 \<le> digit_val c"
  by (auto simp: is_digit_def digit_val_def)

lemma dec_snoc: "dec (s @ [c]) = 10 * dec s + digit_val c"
  by (simp add: dec_def)

lemma dec_upper: "isInteger s \<Longrightarrow> dec s < 10 ^ length s"
proof (induction s rule: rev_induct)
  case Nil
  then show ?case by (simp add: dec_def)
next
  case (snoc c s)
  then have "dec s < 10 ^ length s" and "digit_val c < 10"
    by (simp_all add: isInteger_def digit_val_lt)
  then have "10 * dec s + digit_val c < 10 * 10 ^ length s" by linarith
  then show ?case by (simp add: dec_snoc)
qed

lemma dec_lower: "isInteger (c # cs) \<Longrightarrow> c \<noteq> CHR ''0'' \<Longrightarrow> 10 ^ length cs \<le> dec (c # cs)"
proof (induction cs rule: rev_induct)
  case Nil
  then show ?case using digit_val_pos[of c] by (simp add: dec_def isInteger_def)
next
  case (snoc d cs)
  then have "10 ^ length cs \<le> dec (c # cs)" by (simp add: isInteger_def)
  then have "10 * 10 ^ length cs \<le> 10 * dec (c # cs) + digit_val d" by linarith
  moreover have "dec (c # cs @ [d]) = 10 * dec (c # cs) + digit_val d"
    using dec_snoc[of "c # cs" d] by simp
  ultimately show ?case by simp
qed

lemma dec_inj_same_length:
  "isInteger s \<Longrightarrow> isInteger t \<Longrightarrow> length s = length t \<Longrightarrow> dec s = dec t \<Longrightarrow> s = t"
proof (induction s arbitrary: t rule: rev_induct)
  case Nil
  then show ?case by simp
next
  case (snoc c s)
  from snoc.prems(3) obtain t' d where t: "t = t' @ [d]"
    by (cases t rule: rev_cases) auto
  from snoc.prems t have dc: "is_digit c" and dd: "is_digit d"
    and iS: "isInteger s" and iT: "isInteger t'" and len: "length s = length t'"
    by (simp_all add: isInteger_def)
  from snoc.prems(4) t have eq: "10 * dec s + digit_val c = 10 * dec t' + digit_val d"
    by (simp add: dec_snoc)
  from digit_val_lt[OF dc] digit_val_lt[OF dd] eq
  have "dec s = dec t'" and "digit_val c = digit_val d" by presburger+
  with snoc.IH[OF iS iT len] digit_val_inj[OF dc dd] t show ?case by simp
qed

lemma canonical_index_inj:
  assumes "canonical_index s = Some n" and "canonical_index t = Some n"
  shows "s = t"
proof -
  from assms(1) obtain c cs where s: "s = c # cs" and iS: "isInteger s"
    and cs: "c \<noteq> CHR ''0'' \<or> cs = []" and ds: "dec s = n"
    by (auto simp: canonical_index_def split: list.splits if_splits)
  from assms(2) obtain d ds where t: "t = d # ds" and iT: "isInteger t"
    and dt: "d \<noteq> CHR ''0'' \<or> ds = []" and dt': "dec t = n"
    by (auto simp: canonical_index_def split: list.splits if_splits)
  have "length cs = length ds"
  proof (rule ccontr)
    assume ne: "length cs \<noteq> length ds"
    show False
    proof (cases "length cs < length ds")
      case True
      then have "ds \<noteq> []" by auto
      with dt have "d \<noteq> CHR ''0''" by simp
      with dec_lower[of d ds] iT t have "10 ^ length ds \<le> n" using dt' by simp
      moreover from dec_upper[OF iS] s ds have "n < 10 ^ Suc (length cs)" by simp
      moreover from True have "(10::nat) ^ Suc (length cs) \<le> 10 ^ length ds"
        by (intro power_increasing) simp_all
      ultimately show False by linarith
    next
      case False
      with ne have lt: "length ds < length cs" by simp
      then have "cs \<noteq> []" by auto
      with cs have "c \<noteq> CHR ''0''" by simp
      with dec_lower[of c cs] iS s have "10 ^ length cs \<le> n" using ds by simp
      moreover from dec_upper[OF iT] t dt' have "n < 10 ^ Suc (length ds)" by simp
      moreover from lt have "(10::nat) ^ Suc (length ds) \<le> 10 ^ length cs"
        by (intro power_increasing) simp_all
      ultimately show False by linarith
    qed
  qed
  then have "length s = length t" using s t by simp
  with dec_inj_same_length[OF iS iT] ds dt' show ?thesis by simp
qed

lemma tilde_tilde_small: "n < 2 ^ 31 \<Longrightarrow> dec key = n \<Longrightarrow> tilde_tilde key = int n"
  by (simp add: tilde_tilde_def round53_def toInt32_def)

text \<open>
  Members of objects and elements of arrays, read and replaced.
\<close>

lemma array_index_inj: "array_index k = Some n \<Longrightarrow> array_index j = Some n \<Longrightarrow> k = j"
  by (auto simp: array_index_def split: option.splits if_splits intro: canonical_index_inj)

lemma array_index_facts:
  assumes "array_index k = Some n"
  shows "isInteger k" and "k \<noteq> ''-''" and "canonical_index k = Some n"
    and "tilde_tilde k = int n" and "unescapePathComponent k = k"
proof -
  from assms have ci: "canonical_index k = Some n" and n: "n < 2 ^ 31"
    by (auto simp: array_index_def split: option.splits if_splits)
  then show "canonical_index k = Some n" by simp
  from ci show ii: "isInteger k" and "k \<noteq> ''-''"
    by (auto simp: canonical_index_def isInteger_def is_digit_def split: list.splits if_splits)
  from ci have "dec k = n"
    by (auto simp: canonical_index_def split: list.splits if_splits)
  with n show "tilde_tilde k = int n" by (simp add: tilde_tilde_small)
  have "CHR ''~'' \<notin> set s \<Longrightarrow> replace_tilde1 s = s" for s
    by (induction s rule: replace_tilde1.induct) auto
  moreover have "CHR ''~'' \<notin> set s \<Longrightarrow> replace_tilde0 s = s" for s
    by (induction s rule: replace_tilde0.induct) auto
  moreover have "\<not> is_digit (CHR ''~'')" by (simp add: is_digit_def)
  then have "CHR ''~'' \<notin> set k"
    using ii unfolding isInteger_def list_all_iff by blast
  ultimately show "unescapePathComponent k = k" by (simp add: unescapePathComponent_def)
qed

lemma child_container: "child d k = Some c \<Longrightarrow> is_container (Some d)"
  by (cases d) (simp_all add: is_container_def)

lemma fmupd_same: "fmlookup m k = Some c \<Longrightarrow> fmupd k c m = m"
  by (rule fmap_ext) auto

lemma put_child_same: "child d k = Some c \<Longrightarrow> put_child d k c = d"
  by (cases d) (auto simp: fmupd_same split: option.splits if_splits)

lemma child_put_child: "child d k = Some c \<Longrightarrow> child (put_child d k c') k = Some c'"
  by (cases d) (auto split: option.splits if_splits)

lemma child_put_child_other:
  "k \<noteq> j \<Longrightarrow> child (put_child d k c') j = child d j"
proof (cases d)
  case (JArr xs)
  assume kj: "k \<noteq> j"
  show ?thesis
  proof (cases "array_index k")
    case None
    with JArr show ?thesis by simp
  next
    case (Some n)
    show ?thesis
    proof (cases "array_index j")
      case None
      with JArr Some show ?thesis by simp
    next
      case (Some i)
      with \<open>array_index k = Some n\<close> kj have "n \<noteq> i" using array_index_inj by blast
      with JArr Some \<open>array_index k = Some n\<close> show ?thesis by simp
    qed
  qed
qed simp_all

lemma put_child_twice: "put_child (put_child d k c) k c' = put_child d k c'"
  by (cases d) (auto split: option.splits)

lemma put_child_container: "is_container (Some d) \<Longrightarrow> is_container (Some (put_child d k c))"
  by (cases d) (auto simp: is_container_def split: option.splits)

text \<open>
  Built-in names are words: none is a run of digits, so none is an index.
\<close>

lemma builtin_not_integer: "builtin_name k \<Longrightarrow> \<not> isInteger k"
  unfolding builtin_name_def array_prototype_names_def string_prototype_names_def
    number_prototype_names_def object_prototype_names_def
  by (auto simp: isInteger_def is_digit_def)

lemma builtin_object: "k \<in> set object_prototype_names \<Longrightarrow> builtin_name k"
  by (simp add: builtin_name_def array_prototype_names_def)

lemma builtin_array: "k \<in> set array_prototype_names \<Longrightarrow> builtin_name k"
  by (simp add: builtin_name_def)

lemma builtin_string: "k \<in> set string_prototype_names \<Longrightarrow> builtin_name k"
  by (simp add: builtin_name_def)

lemma builtin_number: "k \<in> set number_prototype_names \<Longrightarrow> builtin_name k"
  by (simp add: builtin_name_def)

lemma builtin_boolean: "k \<in> set boolean_prototype_names \<Longrightarrow> builtin_name k"
  by (simp add: boolean_prototype_names_def builtin_object)

lemma index_not_builtin: "array_index k = Some n \<Longrightarrow> \<not> builtin_name k"
  using array_index_facts(1) builtin_not_integer by blast

lemmas builtin_defs = builtin_name_def array_prototype_names_def string_prototype_names_def
  number_prototype_names_def object_prototype_names_def

text \<open>
  Reading a member: a child is read as itself, and a dead end as \<^verbatim>\<open>undefined\<close>.
\<close>

lemma get_member_child: "child d k = Some c \<Longrightarrow> get_member d k = Inr (Some c)"
proof (cases d)
  case (JArr xs)
  assume "child d k = Some c"
  with JArr obtain n where n: "array_index k = Some n" and len: "n < length xs" and c: "c = xs ! n"
    by (auto split: option.splits if_splits)
  from array_index_facts(3)[OF n] len c JArr show ?thesis
    by (simp add: arr_get_def member_or_def)
qed (auto simp: member_or_def)

lemma canonical_index_integer: "canonical_index k = Some n \<Longrightarrow> isInteger k"
  by (auto simp: canonical_index_def split: list.splits if_splits)

lemma dead_end_own:
  assumes "case array_index k of Some n \<Rightarrow> len \<le> n | None \<Rightarrow> \<not> isInteger k"
  shows "(case canonical_index k of Some n \<Rightarrow> if n < len then Some (f n) else None
          | None \<Rightarrow> if k = ''length'' then Some w else None)
         = (if k = ''length'' then Some w else None) \<or>
         (case canonical_index k of Some n \<Rightarrow> if n < len then Some (f n) else None
          | None \<Rightarrow> if k = ''length'' then Some w else None) = None"
proof (cases "canonical_index k")
  case None
  then show ?thesis by simp
next
  case (Some n)
  then have "isInteger k" by (rule canonical_index_integer)
  with assms Some have "len \<le> n"
    by (auto simp: array_index_def split: if_splits)
  with Some show ?thesis by simp
qed

lemma get_member_dead_end:
  assumes "dead_end d k" and "d \<noteq> JNull"
  shows "get_member d k = Inr None"
proof (cases d)
  case (JObj m)
  with assms builtin_object[of k] show ?thesis by (auto simp: member_or_def)
next
  case (JArr xs)
  with assms have nb: "\<not> builtin_name k" and nl: "k \<noteq> ''length''"
    and ix: "case array_index k of Some n \<Rightarrow> length xs \<le> n | None \<Rightarrow> \<not> isInteger k"
    by simp_all
  from dead_end_own[OF ix, where f = "\<lambda>n. xs ! n" and w = "JNum (of_nat (length xs))"] nl
  have "arr_get xs k = None" by (simp add: arr_get_def)
  with nb builtin_array[of k] JArr show ?thesis by (auto simp: member_or_def)
next
  case (JStr s)
  with assms have nb: "\<not> builtin_name k" and nl: "k \<noteq> ''length''"
    and ix: "case array_index k of Some n \<Rightarrow> length s \<le> n | None \<Rightarrow> \<not> isInteger k"
    by simp_all
  from dead_end_own[OF ix, where f = "\<lambda>n. JStr [s ! n]" and w = "JNum (of_nat (length s))"] nl
  have "(case canonical_index k of Some n \<Rightarrow> if n < length s then Some (JStr [s ! n]) else None
          | None \<Rightarrow> if k = ''length'' then Some (JNum (of_nat (length s))) else None) = None"
    by simp
  with nb builtin_string[of k] JStr show ?thesis by (auto simp: member_or_def)
next
  case (JNum n)
  with assms builtin_number[of k] show ?thesis by (auto simp: member_or_def)
next
  case (JBool b)
  with assms builtin_boolean[of k] show ?thesis by (auto simp: member_or_def)
qed (use assms in simp)

lemma array_key_index:
  "array_index k = Some n \<Longrightarrow> array_key b xs k = Inr (Num (int n))"
  using array_index_facts[of k n] by (simp add: array_key_def)




lemma walk_step:
  assumes "plain raw" and "rest \<noteq> []"
    and "child obj (unescapePathComponent raw) = Some c"
    and "vo \<longrightarrow> is_container (Some c)"
  shows "walk vo chk lop path pre found obj (raw # rest) =
     (case walk vo chk lop path (pre @ [raw]) found c rest of
        Inl e \<Rightarrow> Inl e
      | Inr None \<Rightarrow> Inr None
      | Inr (Some (c', r)) \<Rightarrow> Inr (Some (put_child obj (unescapePathComponent raw) c', r)))"
proof (cases obj)
  case (JObj m)
  with assms show ?thesis
    by (auto simp: plain_def Let_def member_or_def split: option.splits sum.splits prod.splits)
next
  case (JArr xs)
  let ?key = "unescapePathComponent raw"
  from assms(3) JArr obtain n where n: "array_index ?key = Some n" and len: "n < length xs"
    and c: "c = xs ! n"
    by (auto split: option.splits if_splits)
  have ak: "array_key b xs ?key = Inr (Num (int n))" for b
    using n by (rule array_key_index)
  have gm: "get_member (JArr xs) ?key = Inr (Some (xs ! n))"
    using get_member_child[OF assms(3)] JArr c by simp
  have am: "arr_member xs (Num (int n)) = Inr (Some (xs ! n))"
    using len by simp
  have cc: "vo \<longrightarrow> is_container (Some (xs ! n))" using assms(4) c by simp
  have ap: "arr_put xs (Num (int n)) c' = xs[n := c']" for c'
    using len by simp
  have "walk vo chk lop path pre found (JArr xs) (raw # rest) =
     (case walk vo chk lop path (pre @ [raw]) found (xs ! n) rest of
        Inl e \<Rightarrow> Inl e
      | Inr None \<Rightarrow> Inr None
      | Inr (Some (c', r)) \<Rightarrow> Inr (Some (JArr (xs[n := c']), r)))"
    using assms(1,2) cc
    by (cases "vo \<and> \<not> found")
       (auto simp: plain_def Let_def ak gm am ap
             simp del: arr_put.simps arr_member.simps get_member.simps
             split: sum.splits option.splits prod.splits)
  then show ?thesis
    unfolding JArr c using n
    by (simp del: walk.simps split: sum.splits option.splits prod.splits)
qed (use assms in simp_all)

lemma walk_last_obj:
  assumes "plain raw"
    and "fmlookup m (unescapePathComponent raw) \<noteq> None \<or> \<not> builtin_name (unescapePathComponent raw)"
  shows "walk vo chk lop path pre found (JObj m) [raw] =
     (case (if vo \<and> \<not> found
            then (case fmlookup m (unescapePathComponent raw) of
                    None \<Rightarrow> chk (join_slash pre) | Some c \<Rightarrow> chk path)
            else None) of
        Some e \<Rightarrow> Inl e
      | None \<Rightarrow> obj_leaf lop (JObj m) (unescapePathComponent raw))"
  using assms builtin_object[of "unescapePathComponent raw"]
  by (auto simp: plain_def Let_def member_or_def split: option.splits)

lemma walk_last_arr:
  assumes "plain raw" and "array_index (unescapePathComponent raw) = Some n"
    and "\<not> (vo \<and> is_add lop \<and> length xs < n)"
  shows "walk vo chk lop path pre found (JArr xs) [raw] =
     (case (if vo \<and> \<not> found
            then (case child (JArr xs) (unescapePathComponent raw) of
                    None \<Rightarrow> chk (join_slash pre) | Some c \<Rightarrow> chk path)
            else None) of
        Some e \<Rightarrow> Inl e
      | None \<Rightarrow> arr_leaf lop xs (Num (int n)))"
proof -
  let ?key = "unescapePathComponent raw"
  have ak: "array_key b xs ?key = Inr (Num (int n))" for b
    using assms(2) by (rule array_key_index)
  have gm: "get_member (JArr xs) ?key = Inr (child (JArr xs) ?key)"
  proof (cases "n < length xs")
    case True
    with assms(2) have "child (JArr xs) ?key = Some (xs ! n)" by simp
    with get_member_child[OF this] show ?thesis by simp
  next
    case False
    with assms(2) index_not_builtin[OF assms(2)] have "dead_end (JArr xs) ?key"
      using array_index_facts(1)[OF assms(2)]
      by (auto simp: isInteger_def is_digit_def)
    from get_member_dead_end[OF this] False assms(2) show ?thesis by simp
  qed
  show ?thesis
    using assms(1,3)
    by (cases "vo \<and> \<not> found")
       (auto simp: plain_def Let_def ak gm
             simp del: arr_member.simps get_member.simps child.simps arr_leaf.simps
             split: sum.splits option.splits)
qed

declare walk.simps [simp del]

text \<open>
  The loop along a path: to a value that is there, to a dead end, and to the last key
  below a parent that is there.
\<close>

lemma has_parent_container: "has_parent d ks \<Longrightarrow> is_container (Some d)"
  by (induction d ks rule: has_parent.induct)
     (auto simp: is_container_def split: option.splits dest: child_container)

lemma resolve_has_parent: "resolve d ks = Some v \<Longrightarrow> ks \<noteq> [] \<Longrightarrow> has_parent d ks"
proof (induction d ks rule: resolve.induct)
  case (2 d k ks)
  then obtain c where c: "child d k = Some c" and r: "resolve c ks = Some v"
    by (auto split: option.splits)
  show ?case
  proof (cases ks)
    case Nil
    with c show ?thesis by (cases d) (auto split: option.splits)
  next
    case (Cons k' ks')
    with 2 c r show ?thesis by simp
  qed
qed simp

lemma addable_has_parent: "addable d ks \<Longrightarrow> has_parent d ks"
  by (induction d ks rule: addable.induct) (auto split: option.splits)

lemma walk_get_resolves:
  assumes "resolve obj (map unescapePathComponent raws) = Some v" and "list_all plain raws"
    and "raws \<noteq> []"
  shows "walk False chk LGet path pre found obj raws = Inr (Some (obj, Some v))"
  using assms
proof (induction raws arbitrary: obj pre)
  case Nil
  then show ?case by simp
next
  case (Cons raw rest)
  let ?key = "unescapePathComponent raw"
  from Cons.prems(2) have pl: "plain raw" and plr: "list_all plain rest" by simp_all
  from Cons.prems(1) obtain c where c: "child obj ?key = Some c"
    and rc: "resolve c (map unescapePathComponent rest) = Some v"
    by (auto split: option.splits)
  show ?case
  proof (cases rest)
    case Nil
    with rc have cv: "c = v" by simp
    show ?thesis
    proof (cases obj)
      case (JObj m)
      with c cv Nil show ?thesis by (simp add: walk_last_obj[OF pl] member_or_def)
    next
      case (JArr xs)
      from c JArr obtain n where n: "array_index ?key = Some n" and len: "n < length xs"
        and "c = xs ! n"
        by (auto split: option.splits if_splits)
      with cv JArr Nil show ?thesis by (simp add: walk_last_arr[OF pl n])
    qed (use c in simp_all)
  next
    case (Cons raw' rest')
    then have ne: "rest \<noteq> []" by simp
    from Cons.IH[OF rc plr ne, of "pre @ [raw]"] put_child_same[OF c]
    show ?thesis by (simp add: walk_step[OF pl ne c])
  qed
qed


lemma walk_to_leaf:
  assumes "has_parent obj (map unescapePathComponent raws)" and "list_all plain raws"
    and "resolve obj (map unescapePathComponent raws) \<noteq> None
         \<or> \<not> builtin_name (unescapePathComponent (last raws))"
    and "\<not> (vo \<and> is_add lop)"
  shows "walk vo chk lop path pre found obj raws =
     (case (if vo \<and> \<not> found
            then (case resolve obj (map unescapePathComponent raws) of
                    None \<Rightarrow> chk (join_slash (pre @ butlast raws)) | Some c \<Rightarrow> chk path)
            else None) of
        Some e \<Rightarrow> Inl e
      | None \<Rightarrow> tree_leaf lop (map unescapePathComponent raws) obj)"
  using assms(1,2,3)
proof (induction raws arbitrary: obj pre)
  case Nil
  then show ?case by simp
next
  case (Cons raw rest)
  let ?key = "unescapePathComponent raw"
  from Cons.prems(2) have pl: "plain raw" and plr: "list_all plain rest" by simp_all
  show ?case
  proof (cases rest)
    case Nil
    show ?thesis
    proof (cases obj)
      case (JObj m)
      from Cons.prems(3) Nil JObj
      have "fmlookup m ?key \<noteq> None \<or> \<not> builtin_name ?key"
        by (auto split: option.splits)
      from walk_last_obj[OF pl this] show ?thesis unfolding JObj Nil
        by (simp split: option.splits)
    next
      case (JArr xs)
      with Cons.prems(1) Nil obtain n where n: "array_index ?key = Some n" by auto
      from assms(4) have "\<not> (vo \<and> is_add lop \<and> length xs < n)" by blast
      from walk_last_arr[OF pl n this] n show ?thesis unfolding JArr Nil
        by (simp split: option.splits)
    qed (use Cons.prems(1) Nil in simp_all)
  next
    case (Cons raw' rest')
    with Cons.prems(1) obtain c where c: "child obj ?key = Some c"
      and hc: "has_parent c (map unescapePathComponent rest)"
      by (auto split: option.splits)
    have cc: "vo \<longrightarrow> is_container (Some c)" using hc has_parent_container by blast
    have ne: "rest \<noteq> []" using Cons by simp
    from Cons.prems(3) c ne
    have nm: "resolve c (map unescapePathComponent rest) \<noteq> None
         \<or> \<not> builtin_name (unescapePathComponent (last rest))"
      by simp
    note IH = Cons.IH[OF hc plr nm, of "pre @ [raw]"]
    show ?thesis
      apply (subst walk_step[OF pl ne c cc])
      apply (subst IH)
      using c Cons
      apply (auto split: option.splits sum.splits)
      done
  qed
qed

text \<open>
  Removing and adding a value at the end of a path.
\<close>

lemma fmdrop_fmupd_absent: "fmlookup m k = None \<Longrightarrow> fmdrop k (fmupd k v m) = m"
  by (rule fmap_ext) auto

lemma fmupd_fmdrop_same: "fmlookup m k = Some v \<Longrightarrow> fmupd k v (fmdrop k m) = m"
  by (rule fmap_ext) auto

lemma resolve_prefix:
  "resolve d ks = Some v \<Longrightarrow> prefix js ks \<Longrightarrow> resolve d js \<noteq> None"
  by (induction d ks arbitrary: js rule: resolve.induct)
     (auto simp: prefix_Cons split: option.splits)

lemma take_drop_beyond: "length xs \<le> n \<Longrightarrow> take n xs @ drop (Suc n) xs = xs"
  by simp

lemma arr_leaf_get:
  "arr_leaf LGet xs (Num (int n)) = Inr (Some (JArr xs, if n < length xs then Some (xs ! n) else None))"
  by simp

lemma arr_leaf_remove:
  "arr_leaf LRemove xs (Num (int n)) =
     Inr (Some (JArr (take n xs @ drop (Suc n) xs), if n < length xs then Some (xs ! n) else None))"
  by (cases "n < length xs") (simp_all add: splice_start_def Let_def min_def)

lemma arr_leaf_add:
  "arr_leaf (LAdd (Some v)) xs (Num (int n)) = Inr (Some (JArr (take n xs @ v # drop n xs), None))"
  by (cases "n < length xs") (simp_all add: splice_start_def Let_def min_def)

lemma obj_leaf_present:
  assumes "fmlookup m k \<noteq> None \<or> \<not> builtin_name k"
  shows "get_member (JObj m) k = Inr (fmlookup m k)"
  using assms builtin_object[of k] by (auto simp: member_or_def split: option.splits)

lemma tree_leaf_get:
  "has_parent d ks \<Longrightarrow> resolve d ks \<noteq> None \<or> \<not> builtin_name (last ks) \<Longrightarrow>
     tree_leaf LGet ks d = Inr (Some (d, resolve d ks))"
proof (induction d ks rule: has_parent.induct)
  case (1 m k)
  then have "get_member (JObj m) k = Inr (fmlookup m k)"
    by (intro obj_leaf_present) (auto split: option.splits)
  then show ?case by (simp split: option.splits)
next
  case (2 xs k)
  then show ?case by (auto simp: arr_leaf_get simp del: arr_leaf.simps split: option.splits)
next
  case (3 d k k' ks)
  then show ?case by (auto simp: put_child_same split: option.splits)
qed simp_all

lemma tree_leaf_remove:
  "has_parent d ks \<Longrightarrow> resolve d ks \<noteq> None \<or> \<not> builtin_name (last ks) \<Longrightarrow>
     tree_leaf LRemove ks d = Inr (Some (tree_del ks d, resolve d ks))"
proof (induction d ks rule: has_parent.induct)
  case (1 m k)
  then have "get_member (JObj m) k = Inr (fmlookup m k)"
    by (intro obj_leaf_present) (auto split: option.splits)
  then show ?case by (simp split: option.splits)
next
  case (2 xs k)
  then show ?case by (auto simp: arr_leaf_remove simp del: arr_leaf.simps split: option.splits)
next
  case (3 d k k' ks)
  then show ?case by (auto split: option.splits)
qed simp_all

lemma tree_leaf_add:
  "has_parent d ks \<Longrightarrow> resolve d ks \<noteq> None \<or> \<not> builtin_name (last ks) \<Longrightarrow>
     tree_leaf (LAdd (Some v)) ks d = Inr (Some (tree_set ks v d, None))"
proof (induction d ks rule: has_parent.induct)
  case (1 m k)
  then have "get_member (JObj m) k = Inr (fmlookup m k)"
    by (intro obj_leaf_present) (auto split: option.splits)
  then show ?case by (simp split: option.splits)
next
  case (2 xs k)
  then show ?case by (auto simp: arr_leaf_add simp del: arr_leaf.simps split: option.splits)
next
  case (3 d k k' ks)
  then show ?case by (auto split: option.splits)
qed simp_all

lemma tree_leaf_movecopy:
  "has_parent d ks \<Longrightarrow> tree_leaf LMoveCopy ks d = Inr None"
  by (induction d ks rule: has_parent.induct) (auto split: option.splits)

lemma tree_set_del_fresh:
  "addable d ks \<Longrightarrow> resolve d ks = None \<Longrightarrow> tree_del ks (tree_set ks v d) = d"
  by (induction d ks rule: addable.induct)
     (auto simp: put_child_same put_child_twice child_put_child fmdrop_fmupd_absent
           split: option.splits)

lemma tree_del_set_back:
  "resolve d ks = Some v \<Longrightarrow> ks \<noteq> [] \<Longrightarrow> tree_set ks v (tree_del ks d) = d"
proof (induction d ks rule: has_parent.induct)
  case (1 m k)
  then show ?case by (auto simp: fmupd_fmdrop_same split: option.splits)
next
  case (2 xs k)
  then obtain n where n: "array_index k = Some n" and len: "n < length xs" and v: "v = xs ! n"
    by (auto split: option.splits if_splits)
  have "take n (take n xs @ drop (Suc n) xs) @ xs ! n # drop n (take n xs @ drop (Suc n) xs) = xs"
    using len by (simp add: min_def id_take_nth_drop[symmetric])
  with n v show ?case by simp
next
  case (3 d k k' ks)
  then show ?case
    by (auto simp: put_child_same put_child_twice child_put_child split: option.splits)
qed (auto split: option.splits)

lemma tree_set_there:
  "addable d ks \<Longrightarrow> resolve d ks = None \<Longrightarrow> resolve (tree_set ks v d) ks = Some v"
  by (induction d ks rule: addable.induct)
     (auto simp: child_put_child nth_append split: option.splits)

lemma tree_del_parent:
  "has_parent d ks \<Longrightarrow> has_parent (tree_del ks d) ks"
  by (induction d ks rule: has_parent.induct)
     (auto simp: child_put_child split: option.splits)

text \<open>
  A change elsewhere in the document leaves the view of a path the same.
\<close>

lemma view_last:
  assumes "child d j = child d' j" and "has_parent d [j] = has_parent d' [j]"
  shows "view d (j # js) = view d' (j # js)"
  using assms by (cases js) (simp_all add: view_def split: option.splits)

lemma view_step:
  assumes "child d j = Some c" and "child d' j = Some c'" and "js \<noteq> []"
    and "view c js = view c' js"
  shows "view d (j # js) = view d' (j # js)"
  using assms by (cases js) (simp_all add: view_def)

lemma full_view_last:
  assumes "child d j = child d' j" and "has_parent d [j] = has_parent d' [j]"
    and "addable d [j] = addable d' [j]"
  shows "full_view d (j # js) = full_view d' (j # js)"
  using assms by (cases js) (simp_all add: full_view_def split: option.splits)

lemma full_view_step:
  assumes "child d j = Some c" and "child d' j = Some c'" and "js \<noteq> []"
    and "full_view c js = full_view c' js"
  shows "full_view d (j # js) = full_view d' (j # js)"
  using assms by (cases js) (simp_all add: full_view_def)

lemma put_child_single:
  "has_parent (put_child d k c) [j] = has_parent d [j]"
  "addable (put_child d k c) [j] = addable d [j]"
  by (cases d; auto split: option.splits)+

lemma view_put_child_other:
  "k \<noteq> j \<Longrightarrow> view (put_child d k c) (j # js) = view d (j # js)"
  by (intro view_last) (simp_all add: child_put_child_other put_child_single)

lemma full_view_put_child_other:
  "k \<noteq> j \<Longrightarrow> full_view (put_child d k c) (j # js) = full_view d (j # js)"
  by (intro full_view_last) (simp_all add: child_put_child_other put_child_single)

lemma tree_del_other:
  "\<not> prefix ks js \<Longrightarrow> \<not> prefix js ks \<Longrightarrow> \<not> shifts d ks js \<Longrightarrow>
     full_view (tree_del ks d) js = full_view d js"
proof (induction ks d arbitrary: js rule: tree_del.induct)
  case (1 k m)
  then obtain j js' where js: "js = j # js'" and kj: "k \<noteq> j" by (cases js) auto
  show ?case unfolding js by (intro full_view_last) (use kj in simp_all)
next
  case (2 k xs)
  then obtain j js' where js: "js = j # js'" and kj: "k \<noteq> j" by (cases js) auto
  show ?case
  proof (cases "array_index k")
    case None
    then show ?thesis by simp
  next
    case (Some n)
    let ?ys = "take n xs @ drop (Suc n) xs"
    show ?thesis
    proof (cases "array_index j")
      case None
      with Some show ?thesis unfolding js by (intro full_view_last) simp_all
    next
      case jm: (Some m)
      from "2.prems"(3) js Some jm have "m \<le> n" by simp
      moreover have "m \<noteq> n" using array_index_inj[OF Some] jm kj by auto
      ultimately have mn: "m < n" by simp
      show ?thesis
      proof (cases "n < length xs")
        case True
        with mn have "?ys ! m = xs ! m" "m < length ?ys" "m < length xs" "m \<noteq> length ?ys"
          "m \<noteq> length xs"
          by (auto simp: nth_append)
        with Some jm show ?thesis unfolding js by (intro full_view_last) simp_all
      next
        case False
        then have "?ys = xs" by simp
        with Some show ?thesis by simp
      qed
    qed
  qed
next
  case (3 k k' ks d)
  from "3.prems" obtain j js' where js: "js = j # js'" by (cases js) auto
  show ?case
  proof (cases "child d k")
    case None
    then show ?thesis by simp
  next
    case (Some c)
    note IH = 3(1)[OF Some]
    let ?c' = "tree_del (k' # ks) c"
    have td: "tree_del (k # k' # ks) d = put_child d k ?c'" using Some by simp
    show ?thesis
    proof (cases "j = k")
      case False
      then have "k \<noteq> j" by simp
      then show ?thesis unfolding td js by (rule full_view_put_child_other)
    next
      case True
      with "3.prems" js have ne: "js' \<noteq> []" by (cases js') auto
      from "3.prems" js True Some
      have "\<not> prefix (k' # ks) js'" "\<not> prefix js' (k' # ks)" "\<not> shifts c (k' # ks) js'"
        using ne by (cases js'; auto)+
      from IH[OF this] have v: "full_view ?c' js' = full_view c js'" .
      have "child (put_child d k ?c') k = Some ?c'" using Some by (rule child_put_child)
      from full_view_step[OF this Some ne v] show ?thesis unfolding td js True .
    qed
  qed
qed simp_all

lemma tree_set_other:
  "addable d ks \<Longrightarrow> resolve d ks = None \<Longrightarrow> \<not> prefix ks js \<Longrightarrow> \<not> prefix js ks \<Longrightarrow>
     view (tree_set ks v d) js = view d js"
proof (induction d ks arbitrary: js rule: addable.induct)
  case (1 m k)
  then obtain j js' where js: "js = j # js'" and kj: "k \<noteq> j" by (cases js) auto
  show ?case unfolding js by (intro view_last) (use kj in simp_all)
next
  case (2 xs k)
  then obtain j js' where js: "js = j # js'" and kj: "k \<noteq> j" by (cases js) auto
  from "2.prems"(1) have n: "array_index k = Some (length xs)" by simp
  show ?case
  proof (cases "array_index j")
    case None
    with n show ?thesis unfolding js by (intro view_last) simp_all
  next
    case (Some m)
    have "m \<noteq> length xs" using array_index_inj[OF n] Some kj by auto
    with n Some show ?thesis unfolding js by (intro view_last) (auto simp: nth_append)
  qed
next
  case (3 d k k' ks)
  from "3.prems" obtain j js' where js: "js = j # js'" by (cases js) auto
  from "3.prems"(1) obtain c where c: "child d k = Some c" and ac: "addable c (k' # ks)"
    by (auto split: option.splits)
  from "3.prems"(2) c have rc: "resolve c (k' # ks) = None" by simp
  let ?c' = "tree_set (k' # ks) v c"
  have td: "tree_set (k # k' # ks) v d = put_child d k ?c'" using c by simp
  show ?case
  proof (cases "j = k")
    case False
    then have "k \<noteq> j" by simp
    then show ?thesis unfolding td js by (rule view_put_child_other)
  next
    case True
    with "3.prems" js have ne: "js' \<noteq> []" by (cases js') auto
    from "3.prems" js True
    have "\<not> prefix (k' # ks) js'" "\<not> prefix js' (k' # ks)" by auto
    from "3.IH"[OF c ac rc this] have v: "view ?c' js' = view c js'" .
    have "child (put_child d k ?c') k = Some ?c'" using c by (rule child_put_child)
    from view_step[OF this c ne v] show ?thesis unfolding td js True .
  qed
qed simp_all

text \<open>
  Pointers and their segments.
\<close>

lemma split_slash_no_slash: "CHR ''/'' \<notin> set w \<Longrightarrow> split_slash w = [w]"
  by (induction w) auto

lemma split_slash_append:
  "CHR ''/'' \<notin> set w \<Longrightarrow> split_slash (w @ CHR ''/'' # r) = w # split_slash r"
  by (induction w) auto

lemma split_join_slash:
  "ks \<noteq> [] \<Longrightarrow> list_all (\<lambda>k. CHR ''/'' \<notin> set k) ks \<Longrightarrow> split_slash (join_slash ks) = ks"
  by (induction ks rule: join_slash.induct)
     (simp_all add: split_slash_no_slash split_slash_append)

lemma split_pointer_of:
  "list_all (\<lambda>k. CHR ''/'' \<notin> set k) ks \<Longrightarrow> split_slash (pointer_of ks) = [] # ks"
  unfolding pointer_of_def by (rule split_join_slash) simp_all

lemma pointer_of_Cons: "pointer_of (k # ks) = CHR ''/'' # join_slash (k # ks)"
  by (simp add: pointer_of_def)



lemma last_unescaped:
  "ks \<noteq> [] \<Longrightarrow> last (map unescapePathComponent ks) = unescapePathComponent (last ks)"
  by (simp add: last_map)

lemma names_unescaped:
  "ks \<noteq> [] \<Longrightarrow> P \<or> \<not> builtin_name (unescapePathComponent (last ks)) \<Longrightarrow>
     P \<or> \<not> builtin_name (last (map unescapePathComponent ks))"
  by (simp add: last_map)

text \<open>
  The library's operations on a pointer whose parent is there.
\<close>

lemma nv_apply_path:
  assumes "has_parent D (map unescapePathComponent ks)" and "well_formed_keys ks"
    and "resolve D (map unescapePathComponent ks) \<noteq> None
         \<or> \<not> builtin_name (unescapePathComponent (last ks))"
  shows "nv_apply lop D (pointer_of ks) = tree_leaf lop (map unescapePathComponent ks) D"
proof -
  from assms(1) obtain k ks' where ks: "ks = k # ks'" by (cases ks) auto
  have sp: "split_slash (pointer_of ks) = [] # ks"
    using assms(2) by (simp add: split_pointer_of well_formed_keys_def)
  have "walk False (\<lambda>frag. None) lop (pointer_of ks) [[]] False D ks =
      tree_leaf lop (map unescapePathComponent ks) D"
    using assms by (subst walk_to_leaf) (simp_all add: well_formed_keys_def)
  then show ?thesis
    unfolding nv_apply_def sp by (simp add: ks)
qed

lemma getValueByPointer_path:
  assumes "has_parent D (map unescapePathComponent ks)" and "well_formed_keys ks"
    and "resolve D (map unescapePathComponent ks) \<noteq> None
         \<or> \<not> builtin_name (unescapePathComponent (last ks))"
  shows "getValueByPointer D (pointer_of ks) = Inr (resolve D (map unescapePathComponent ks))"
proof -
  from assms(1) obtain k ks' where ks: "ks = k # ks'" by (cases ks) auto
  have ne: "pointer_of ks \<noteq> []" by (simp add: ks pointer_of_Cons)
  have "ks \<noteq> []" using ks by simp
  from tree_leaf_get[OF assms(1) names_unescaped[OF this assms(3)]]
  have "tree_leaf LGet (map unescapePathComponent ks) D =
      Inr (Some (D, resolve D (map unescapePathComponent ks)))" .
  with ne show ?thesis
    by (simp add: getValueByPointer_def nv_apply_path[OF assms])
qed

lemma pathExists_resolves:
  assumes "resolve D (map unescapePathComponent ks) = Some v" and "well_formed_keys ks"
  shows "pathExists D (pointer_of ks) = Inr True"
proof (cases ks)
  case Nil
  then show ?thesis by (simp add: pathExists_def getValueByPointer_def pointer_of_def)
next
  case (Cons k ks')
  then have "has_parent D (map unescapePathComponent ks)"
    using assms(1) by (intro resolve_has_parent) simp_all
  from getValueByPointer_path[OF this assms(2)] assms(1)
  show ?thesis by (simp add: pathExists_def)
qed


lemma validator_base_pointer_of:
  "validator_base Get (pointer_of (k # ks)) None None = None"
  "validator_base (Std Move) (pointer_of (k # ks)) (Some f) None = None"
  by (simp_all add: validator_base_def pointer_of_Cons)

lemma validate_get_path:
  assumes "resolve D (map unescapePathComponent ks) = Some v" and "ks \<noteq> []"
    and "well_formed_keys ks"
  shows "validate_get D (pointer_of ks) = None"
proof -
  from assms(2) obtain k ks' where ks: "ks = k # ks'" by (cases ks) auto
  have hp: "has_parent D (map unescapePathComponent ks)"
    using assms(1,2) by (intro resolve_has_parent) simp_all
  have ne: "pointer_of ks \<noteq> []" by (simp add: ks pointer_of_Cons)
  have sp: "split_slash (pointer_of ks) = [] # ks"
    using assms(3) by (simp add: split_pointer_of well_formed_keys_def)
  have vb: "validator_base Get (pointer_of ks) None None = None"
    unfolding ks by (rule validator_base_pointer_of)
  have chk: "validator_get (pointer_of ks) D (pointer_of ks) = None"
    by (simp add: validator_get_def vb)
  have tl: "tree_leaf LGet (map unescapePathComponent ks) D = Inr (Some (D, Some v))"
    using tree_leaf_get[OF hp] assms(1) by simp
  have "walk True (validator_get (pointer_of ks) D) LGet (pointer_of ks) [[]] False D ks =
      Inr (Some (D, Some v))"
    using assms hp
    by (subst walk_to_leaf) (simp_all add: well_formed_keys_def chk tl is_add_def)
  then show ?thesis
    unfolding validate_get_def vb sp using ne by simp
qed

lemma has_parent_truthy:
  assumes "has_parent D ks"
  shows "truthy D"
proof -
  from assms have "is_container (Some D)" by (rule has_parent_container)
  then show ?thesis by (cases D) (simp_all add: truthy_def is_container_def)
qed

lemma applyOperation_move:
  assumes A: "resolve D (map unescapePathComponent ka) = Some v" and neA: "ka \<noteq> []"
    and wfA: "well_formed_keys ka"
    and B: "has_parent D (map unescapePathComponent kb)" and wfB: "well_formed_keys kb"
    and nB: "\<not> builtin_name (unescapePathComponent (last kb))"
    and B1: "has_parent (tree_del (map unescapePathComponent ka) D) (map unescapePathComponent kb)"
  shows "applyOperation D \<lparr>op_kind = Move, op_path = pointer_of kb,
            op_from = Some (pointer_of ka), op_value = None\<rparr>
         = Inr (tree_set (map unescapePathComponent kb) v (tree_del (map unescapePathComponent ka) D))"
proof -
  let ?A = "pointer_of ka" and ?B = "pointer_of kb"
  let ?sa = "map unescapePathComponent ka" and ?sb = "map unescapePathComponent kb"
  from neA obtain a ka' where ka: "ka = a # ka'" by (cases ka) auto
  from B obtain b kb' where kb: "kb = b # kb'" by (cases kb) auto
  have hA: "has_parent D ?sa" using A neA by (intro resolve_has_parent) simp_all
  have neA': "?A \<noteq> []" and neB: "?B \<noteq> []" by (simp_all add: ka kb pointer_of_Cons)
  have sp: "split_slash ?B = [] # kb"
    using wfB by (simp add: split_pointer_of well_formed_keys_def)
  have vb: "validator_base (Std Move) ?B (Some ?A) None = None"
    unfolding kb by (rule validator_base_pointer_of)
  have chk: "validator Move ?B (Some ?A) None D frag = None" for frag
    using has_parent_truthy[OF hA] validate_get_path[OF A neA wfA]
    by (simp add: validator_def vb)
  have w: "walk True (validator Move ?B (Some ?A) None D) LMoveCopy ?B [[]] False D kb = Inr None"
    using B wfB nB
    by (subst walk_to_leaf)
       (simp_all add: well_formed_keys_def chk tree_leaf_movecopy is_add_def split: option.splits)
  have gB: "getValueByPointer D ?B = Inr (resolve D ?sb)"
    using B wfB nB by (intro getValueByPointer_path) simp_all
  have rA: "nv_apply LRemove D ?A = Inr (Some (tree_del ?sa D, Some v))"
    using hA wfA A tree_leaf_remove[OF hA] by (subst nv_apply_path) simp_all
  have neB': "kb \<noteq> []" using kb by simp
  have nB': "resolve (tree_del ?sa D) ?sb \<noteq> None \<or> \<not> builtin_name (unescapePathComponent (last kb))"
    using nB by simp
  have aB: "nv_apply (LAdd (Some v)) (tree_del ?sa D) ?B =
      Inr (Some (tree_set ?sb v (tree_del ?sa D), None))"
    unfolding nv_apply_path[OF B1 wfB nB']
    by (rule tree_leaf_add[OF B1 names_unescaped[OF neB' nB']])
  have m: "move_op D ?A ?B = Inr (tree_set ?sb v (tree_del ?sa D))"
    using neA' by (simp add: move_op_def gB rA aB)
  show ?thesis
    unfolding applyOperation_def
    using neB by (simp add: vb sp w m leaf_of_def)
qed

lemma check_op_move:
  assumes "resolve D (map unescapePathComponent ka) = Some v" and "ka \<noteq> []"
    and "well_formed_keys ka"
  shows "check_op D \<lparr>op_kind = Move, op_path = p, op_from = Some (pointer_of ka), op_value = None\<rparr>
           = None"
proof -
  from assms(2) obtain a ka' where ka: "ka = a # ka'" by (cases ka) auto
  have "pointer_of ka \<noteq> []" by (simp add: ka pointer_of_Cons)
  with pathExists_resolves[OF assms(1,3)] show ?thesis
    by (simp add: check_op_def from_falsy_def)
qed




text \<open>
  The case the amended statement leaves open is a pointer whose parent exists and whose
  last key is absent. \<^verbatim>\<open>getValueByPointer\<close> reads such a member as \<^verbatim>\<open>undefined\<close> and
  does not throw, so \<^verbatim>\<open>pathExists\<close> answers true: on the input of the test
  \<^verbatim>\<open>throws when replacing a non-existent path\<close> (scenario 3 of the specification) the
  error is a type mismatch against \<^verbatim>\<open>undefined\<close> instead of the expected
  \<^verbatim>\<open>does not exist\<close>, and a \<^verbatim>\<open>remove\<close> of the same path passes the validation.
\<close>

lemma missing_member_not_detected:
  "resolve sampleDoc [''data'', ''filter'', ''resonance''] = None \<and>
   validatePatchSemantics sampleDoc
     [\<lparr>op_kind = Replace, op_path = ''/data/filter/resonance'', op_from = None,
       op_value = Some (JNum (3 / 10))\<rparr>]
   = Inl (TypeMismatch ''/data/filter/resonance'' ''undefined'' ''number'') \<and>
   validatePatchSemantics sampleDoc
     [\<lparr>op_kind = Remove, op_path = ''/data/filter/resonance'', op_from = None, op_value = None\<rparr>]
   = Inr ()"
  by (simp add: eval_defs)

text \<open>
  C7, as amended. Let \<open>A\<close> and \<open>B\<close> be pointers with well-formed segments whose last
  segments name no built-in member, such that \<open>A\<close> exists in \<open>D\<close>, \<open>B\<close> does not
  exist in \<open>D\<close>, a value can be added at \<open>B\<close> (the parent of \<open>B\<close> exists and is an
  object, or an array of which \<open>B\<close> is the position after the last element), \<open>A\<close>
  is not a prefix of \<open>B\<close>, and \<open>A\<close> is not an element of an array through which
  \<open>B\<close> passes at a later index. Then \<^verbatim>\<open>applyPatchWithValidation\<close> with the move of
  \<open>A\<close> to \<open>B\<close> returns a document on which \<^verbatim>\<open>applyPatchWithValidation\<close> with the
  move of \<open>B\<close> to \<open>A\<close> returns a document equal to \<open>D\<close>.
\<close>

theorem move_round_trip:
  assumes wf: "well_formed_keys (ka @ kb)"
    and nA: "\<not> builtin_name (unescapePathComponent (last ka))"
    and nB: "\<not> builtin_name (unescapePathComponent (last kb))"
    and A: "resolve D (map unescapePathComponent ka) = Some v"
    and B: "resolve D (map unescapePathComponent kb) = None"
    and Bp: "addable D (map unescapePathComponent kb)"
    and np: "\<not> prefix (map unescapePathComponent ka) (map unescapePathComponent kb)"
    and ns: "\<not> shifts D (map unescapePathComponent ka) (map unescapePathComponent kb)"
  shows "\<exists>D1. apply_result D
           [\<lparr>op_kind = Move, op_path = pointer_of kb, op_from = Some (pointer_of ka), op_value = None\<rparr>]
           = Inr D1 \<and>
           apply_result D1
           [\<lparr>op_kind = Move, op_path = pointer_of ka, op_from = Some (pointer_of kb), op_value = None\<rparr>]
           = Inr D"
proof -
  let ?sa = "map unescapePathComponent ka" and ?sb = "map unescapePathComponent kb"
  let ?AB = "\<lparr>op_kind = Move, op_path = pointer_of kb, op_from = Some (pointer_of ka), op_value = None\<rparr>"
  let ?BA = "\<lparr>op_kind = Move, op_path = pointer_of ka, op_from = Some (pointer_of kb), op_value = None\<rparr>"
  let ?D1 = "tree_del ?sa D"
  let ?D2 = "tree_set ?sb v ?D1"
  from wf have wfA: "well_formed_keys ka" and wfB: "well_formed_keys kb"
    by (simp_all add: well_formed_keys_def)
  from np have neA: "ka \<noteq> []" by auto
  from Bp have neB: "kb \<noteq> []" by (cases kb) auto
  have hA: "has_parent D ?sa" using A neA by (intro resolve_has_parent) simp_all
  have hB: "has_parent D ?sb" using Bp by (rule addable_has_parent)
  have np': "\<not> prefix ?sb ?sa" using resolve_prefix[OF A] B by blast
  from tree_del_other[OF np np' ns]
  have D1_Bv: "resolve ?D1 ?sb = None" and D1_B: "has_parent ?D1 ?sb" and D1_Ba: "addable ?D1 ?sb"
    using B hB Bp by (simp_all add: full_view_def)
  have D1_A: "has_parent ?D1 ?sa" using hA by (rule tree_del_parent)
  have step1: "applyOperation D ?AB = Inr ?D2"
    using A neA wfA hB wfB nB D1_B by (rule applyOperation_move)
  have D2_Bv: "resolve ?D2 ?sb = Some v"
    using D1_Ba D1_Bv by (rule tree_set_there)
  from tree_set_other[OF D1_Ba D1_Bv np' np, of v]
  have D2_A: "has_parent ?D2 ?sa" using D1_A by (simp add: view_def)
  have del_set: "tree_del ?sb ?D2 = ?D1"
    using D1_Ba D1_Bv by (rule tree_set_del_fresh)
  have D3_A: "has_parent (tree_del ?sb ?D2) ?sa"
    unfolding del_set by (rule D1_A)
  have "applyOperation ?D2 ?BA = Inr (tree_set ?sa v (tree_del ?sb ?D2))"
    using D2_Bv neB wfB D2_A wfA nA D3_A by (rule applyOperation_move)
  also have "tree_set ?sa v (tree_del ?sb ?D2) = D"
    unfolding del_set using A neA by (intro tree_del_set_back) simp_all
  finally have step2: "applyOperation ?D2 ?BA = Inr D" .
  have chkAB: "check_op D ?AB = None" using A neA wfA by (rule check_op_move)
  have chkBA: "check_op ?D2 ?BA = None" using D2_Bv neB wfB by (rule check_op_move)
  have "apply_result D [?AB] = Inr ?D2"
    by (simp only: apply_result_single chkAB step1 option.case)
  moreover have "apply_result ?D2 [?BA] = Inr D"
    by (simp only: apply_result_single chkBA step2 option.case)
  ultimately show ?thesis by blast
qed

theorem move_round_trip_witness:
  "(\<exists>D1. apply_result sampleDoc
       [\<lparr>op_kind = Move, op_path = ''/metadata/cutoff'', op_from = Some ''/data/filter/cutoff'',
         op_value = None\<rparr>] = Inr D1 \<and>
     apply_result D1
       [\<lparr>op_kind = Move, op_path = ''/data/filter/cutoff'', op_from = Some ''/metadata/cutoff'',
         op_value = None\<rparr>] = Inr sampleDoc) \<and>
   (\<exists>D1. apply_result (JObj (fmap_of_list [(''x'', JNum 1), (''arr'', JArr [JNum 5])]))
       [\<lparr>op_kind = Move, op_path = ''/arr/1'', op_from = Some ''/x'', op_value = None\<rparr>] = Inr D1 \<and>
     apply_result D1
       [\<lparr>op_kind = Move, op_path = ''/x'', op_from = Some ''/arr/1'', op_value = None\<rparr>]
       = Inr (JObj (fmap_of_list [(''x'', JNum 1), (''arr'', JArr [JNum 5])]))) \<and>
   (\<exists>D1. apply_result
       (JObj (fmap_of_list [(''arr'', JArr [JNum 5, JObj fmempty, JNum 6]), (''out'', JObj fmempty)]))
       [\<lparr>op_kind = Move, op_path = ''/out/first'', op_from = Some ''/arr/1'', op_value = None\<rparr>]
       = Inr D1 \<and>
     apply_result D1
       [\<lparr>op_kind = Move, op_path = ''/arr/1'', op_from = Some ''/out/first'', op_value = None\<rparr>]
       = Inr (JObj (fmap_of_list [(''arr'', JArr [JNum 5, JObj fmempty, JNum 6]),
                                  (''out'', JObj fmempty)])))"
proof -
  have nb: "\<not> builtin_name ''cutoff''" "\<not> builtin_name ''x''" "\<not> builtin_name ''1''"
    "\<not> builtin_name ''first''"
    by (simp_all add: builtin_defs)
  let ?ka = "[''data'', ''filter'', ''cutoff'']" and ?kb = "[''metadata'', ''cutoff'']"
  have 1: "well_formed_keys (?ka @ ?kb)"
    by (simp add: well_formed_keys_def plain_def unescapePathComponent_def)
  have 2: "\<not> builtin_name (unescapePathComponent (last ?ka))"
    "\<not> builtin_name (unescapePathComponent (last ?kb))"
    using nb by (simp_all add: unescapePathComponent_def)
  have 3: "resolve sampleDoc (map unescapePathComponent ?ka) = Some (JNum 200)"
    "resolve sampleDoc (map unescapePathComponent ?kb) = None"
    "addable sampleDoc (map unescapePathComponent ?kb)"
    "\<not> prefix (map unescapePathComponent ?ka) (map unescapePathComponent ?kb)"
    "\<not> shifts sampleDoc (map unescapePathComponent ?ka) (map unescapePathComponent ?kb)"
    by (simp_all add: sampleDoc_def unescapePathComponent_def)
  have e: "pointer_of ?ka = ''/data/filter/cutoff''" "pointer_of ?kb = ''/metadata/cutoff''"
    by (simp_all add: pointer_of_def)
  note a = move_round_trip[OF 1 2 3, unfolded e]
  define X where "X = JObj (fmap_of_list [(''x'', JNum 1), (''arr'', JArr [JNum 5])])"
  let ?xa = "[''x'']" and ?xb = "[''arr'', ''1'']"
  have x1: "well_formed_keys (?xa @ ?xb)"
    by (simp add: well_formed_keys_def plain_def unescapePathComponent_def)
  have x2: "\<not> builtin_name (unescapePathComponent (last ?xa))"
    "\<not> builtin_name (unescapePathComponent (last ?xb))"
    using nb by (simp_all add: unescapePathComponent_def)
  have x3: "resolve X (map unescapePathComponent ?xa) = Some (JNum 1)"
    "resolve X (map unescapePathComponent ?xb) = None"
    "addable X (map unescapePathComponent ?xb)"
    "\<not> prefix (map unescapePathComponent ?xa) (map unescapePathComponent ?xb)"
    "\<not> shifts X (map unescapePathComponent ?xa) (map unescapePathComponent ?xb)"
    by (simp_all add: X_def unescapePathComponent_def array_index_digits)
  have xe: "pointer_of ?xa = ''/x''" "pointer_of ?xb = ''/arr/1''"
    by (simp_all add: pointer_of_def)
  note b = move_round_trip[OF x1 x2 x3, unfolded xe X_def]
  define Y where
    "Y = JObj (fmap_of_list [(''arr'', JArr [JNum 5, JObj fmempty, JNum 6]), (''out'', JObj fmempty)])"
  let ?ya = "[''arr'', ''1'']" and ?yb = "[''out'', ''first'']"
  have y1: "well_formed_keys (?ya @ ?yb)"
    by (simp add: well_formed_keys_def plain_def unescapePathComponent_def)
  have y2: "\<not> builtin_name (unescapePathComponent (last ?ya))"
    "\<not> builtin_name (unescapePathComponent (last ?yb))"
    using nb by (simp_all add: unescapePathComponent_def)
  have y3: "resolve Y (map unescapePathComponent ?ya) = Some (JObj fmempty)"
    "resolve Y (map unescapePathComponent ?yb) = None"
    "addable Y (map unescapePathComponent ?yb)"
    "\<not> prefix (map unescapePathComponent ?ya) (map unescapePathComponent ?yb)"
    "\<not> shifts Y (map unescapePathComponent ?ya) (map unescapePathComponent ?yb)"
    by (simp_all add: Y_def unescapePathComponent_def array_index_digits)
  have ye: "pointer_of ?ya = ''/arr/1''" "pointer_of ?yb = ''/out/first''"
    by (simp_all add: pointer_of_def)
  note c = move_round_trip[OF y1 y2 y3, unfolded ye Y_def]
  from a b c show ?thesis by (intro conjI)
qed

text \<open>
  The claim as stated fails in several ways, each by the design of the library. When
  \<open>A\<close> is a prefix of \<open>B\<close> the first move removes the parent of its own target and
  throws. When \<open>A\<close> is an element of an array and \<open>B\<close> the position after its last
  element, the first move shifts the array, and the source of the second move no longer
  exists. When the parent of \<open>B\<close> is a number, nothing can be added below it. When
  \<open>B\<close> lies beyond the end of an array, the moved value is appended at the end and is
  not found at \<open>B\<close> afterwards.
\<close>

theorem move_round_trip_counterexample:
  "resolve (JObj (fmap_of_list [(''a'', JObj fmempty)])) [''a''] = Some (JObj fmempty) \<and>
   resolve (JObj (fmap_of_list [(''a'', JObj fmempty)])) [''a'', ''b''] = None \<and>
   apply_result (JObj (fmap_of_list [(''a'', JObj fmempty)]))
     [\<lparr>op_kind = Move, op_path = ''/a/b'', op_from = Some ''/a'', op_value = None\<rparr>]
     = Inl TypeError \<and>
   resolve (JObj (fmap_of_list [(''a'', JArr [JNum 1, JNum 2])])) [''a'', ''0''] = Some (JNum 1) \<and>
   resolve (JObj (fmap_of_list [(''a'', JArr [JNum 1, JNum 2])])) [''a'', ''2''] = None \<and>
   apply_result (JObj (fmap_of_list [(''a'', JArr [JNum 1, JNum 2])]))
     [\<lparr>op_kind = Move, op_path = ''/a/2'', op_from = Some ''/a/0'', op_value = None\<rparr>]
     = Inr (JObj (fmap_of_list [(''a'', JArr [JNum 2, JNum 1])])) \<and>
   apply_result (JObj (fmap_of_list [(''a'', JArr [JNum 2, JNum 1])]))
     [\<lparr>op_kind = Move, op_path = ''/a/0'', op_from = Some ''/a/2'', op_value = None\<rparr>]
     = Inl (JsonPatchError OPERATION_FROM_UNRESOLVABLE) \<and>
   resolve sampleDoc [''metadata'', ''name''] = Some (JStr ''Init'') \<and>
   resolve sampleDoc [''data'', ''filter'', ''cutoff'', ''unit''] = None \<and>
   resolve sampleDoc [''data'', ''filter'', ''cutoff''] = Some (JNum 200) \<and>
   apply_result sampleDoc
     [\<lparr>op_kind = Move, op_path = ''/data/filter/cutoff/unit'', op_from = Some ''/metadata/name'',
       op_value = None\<rparr>]
     = Inl (JsonPatchError OPERATION_PATH_UNRESOLVABLE) \<and>
   resolve (JObj (fmap_of_list [(''a'', JArr [JNum 1]), (''x'', JNum 7)])) [''x''] = Some (JNum 7) \<and>
   resolve (JObj (fmap_of_list [(''a'', JArr [JNum 1]), (''x'', JNum 7)])) [''a'', ''2''] = None \<and>
   resolve (JObj (fmap_of_list [(''a'', JArr [JNum 1]), (''x'', JNum 7)])) [''a'']
     = Some (JArr [JNum 1]) \<and>
   apply_result (JObj (fmap_of_list [(''a'', JArr [JNum 1]), (''x'', JNum 7)]))
     [\<lparr>op_kind = Move, op_path = ''/a/2'', op_from = Some ''/x'', op_value = None\<rparr>]
     = Inr (JObj (fmap_of_list [(''a'', JArr [JNum 1, JNum 7])])) \<and>
   apply_result (JObj (fmap_of_list [(''a'', JArr [JNum 1, JNum 7])]))
     [\<lparr>op_kind = Move, op_path = ''/x'', op_from = Some ''/a/2'', op_value = None\<rparr>]
     = Inl (JsonPatchError OPERATION_FROM_UNRESOLVABLE)"
  by (simp add: eval_defs builtin_defs array_key_def arr_get_def splice_start_def
      tilde_tilde_digits canonical_index_digits array_index_digits fmdrop_fmupd)

section \<open>The reach of the model\<close>

text \<open>
  Reading a pointer leaves the modelled values only at a built-in name: when no segment
  of the pointer names a built-in member, \<^verbatim>\<open>getValueByPointer\<close> returns a value
  (possibly \<^verbatim>\<open>undefined\<close>) or throws a \<^verbatim>\<open>TypeError\<close>, and \<^verbatim>\<open>pathExists\<close> answers true
  or false.
\<close>

lemma get_member_modelled:
  assumes "\<not> builtin_name key"
  shows "get_member obj key = Inl TypeError \<or> (\<exists>c. get_member obj key = Inr c)"
  using assms builtin_object[of key] builtin_array[of key] builtin_string[of key]
    builtin_number[of key] builtin_boolean[of key]
  by (cases obj) (auto simp: member_or_def split: option.splits)

lemma get_member_value:
  assumes "\<not> builtin_name key" and "obj \<noteq> JNull"
  shows "\<exists>c. get_member obj key = Inr c"
  using assms builtin_object[of key] builtin_array[of key] builtin_string[of key]
    builtin_number[of key] builtin_boolean[of key]
  by (cases obj) (auto simp: member_or_def split: option.splits)

lemma obj_leaf_get:
  assumes "\<not> builtin_name key"
  shows "obj_leaf LGet obj key = Inl TypeError \<or> (\<exists>v. obj_leaf LGet obj key = Inr (Some (obj, v)))"
  using get_member_modelled[OF assms, of obj] by auto

lemma arr_member_modelled:
  assumes "\<not> builtin_name key" and "array_key False xs key = Inr k"
  shows "\<exists>c. arr_member xs k = Inr c"
proof (cases k)
  case (Num i)
  then show ?thesis by simp
next
  case (Name n)
  with assms(2) have "n = key" by (auto simp: array_key_def split: if_splits)
  with Name get_member_value[OF assms(1), of "JArr xs"] show ?thesis by auto
qed

lemma walk_get_modelled:
  "rest \<noteq> [] \<Longrightarrow> list_all (\<lambda>raw. \<not> builtin_name (unescapePathComponent raw)) rest \<Longrightarrow>
   walk False chk LGet path pre found obj rest = Inl TypeError \<or>
   (\<exists>v. walk False chk LGet path pre found obj rest = Inr (Some (obj, v)))"
proof (induction rest arbitrary: obj pre)
  case Nil
  then show ?case by simp
next
  case (Cons raw rest)
  let ?key = "unescapePathComponent raw"
  from Cons.prems(2) have nb: "\<not> builtin_name ?key"
    and nbr: "list_all (\<lambda>raw. \<not> builtin_name (unescapePathComponent raw)) rest" by simp_all
  have put: "put_member obj k c = obj" if "get_member obj k = Inr (Some c)" for k c
    using that by (cases obj) (auto simp: fmupd_same member_or_def split: option.splits if_splits)
  have aput: "arr_put xs k c = xs" if "arr_member xs k = Inr (Some c)" for xs k c
    using that by (cases k) (auto split: if_splits)
  show ?case
  proof (cases "?key = ''__proto__'' \<or> (?key = ''prototype'' \<and> last pre = ''constructor'')")
    case True
    then show ?thesis by (auto simp: walk.simps Let_def)
  next
    case ban: False
    show ?thesis
    proof (cases obj)
      case (JArr xs)
      show ?thesis
      proof (cases "array_key False xs ?key")
        case (Inl e)
        then show ?thesis by (simp add: array_key_def split: if_splits)
      next
        case (Inr k)
        from arr_member_modelled[OF nb Inr] obtain c where c: "arr_member xs k = Inr c" ..
        show ?thesis
        proof (cases "rest = []")
          case True
          with ban JArr Inr c show ?thesis
            by (cases k) (auto simp: walk.simps Let_def simp del: arr_member.simps)
        next
          case False
          show ?thesis
          proof (cases c)
            case None
            with ban JArr Inr c False show ?thesis
              by (simp add: walk.simps Let_def del: arr_member.simps)
          next
            case (Some child)
            from Cons.IH[OF False nbr, where obj = child and pre = "pre @ [raw]"]
              ban Inr JArr False Some c aput[of xs k child]
            show ?thesis by (auto simp: walk.simps Let_def simp del: arr_member.simps)
          qed
        qed
      qed
    next
      case JNull
      with ban show ?thesis by (cases "rest = []") (simp_all add: walk.simps Let_def)
    next
      case (JBool b)
      note o = this
      from get_member_value[OF nb, of obj] o obtain c where c: "get_member obj ?key = Inr c"
        by auto
      show ?thesis
      proof (cases "rest = []")
        case True
        with ban o c show ?thesis by (auto simp: walk.simps Let_def simp del: get_member.simps)
      next
        case False
        show ?thesis
        proof (cases c)
          case None
          with ban o c False show ?thesis
            by (auto simp: walk.simps Let_def simp del: get_member.simps)
        next
          case (Some child)
          from Cons.IH[OF False nbr, where obj = child and pre = "pre @ [raw]"]
            ban o c False Some put[of ?key child]
          show ?thesis by (auto simp: walk.simps Let_def simp del: get_member.simps)
        qed
      qed
    next
      case (JNum n)
      note o = this
      from get_member_value[OF nb, of obj] o obtain c where c: "get_member obj ?key = Inr c"
        by auto
      show ?thesis
      proof (cases "rest = []")
        case True
        with ban o c show ?thesis by (auto simp: walk.simps Let_def simp del: get_member.simps)
      next
        case False
        show ?thesis
        proof (cases c)
          case None
          with ban o c False show ?thesis
            by (auto simp: walk.simps Let_def simp del: get_member.simps)
        next
          case (Some child)
          from Cons.IH[OF False nbr, where obj = child and pre = "pre @ [raw]"]
            ban o c False Some put[of ?key child]
          show ?thesis by (auto simp: walk.simps Let_def simp del: get_member.simps)
        qed
      qed
    next
      case (JStr str)
      note o = this
      from get_member_value[OF nb, of obj] o obtain c where c: "get_member obj ?key = Inr c"
        by auto
      show ?thesis
      proof (cases "rest = []")
        case True
        with ban o c show ?thesis by (auto simp: walk.simps Let_def simp del: get_member.simps)
      next
        case False
        show ?thesis
        proof (cases c)
          case None
          with ban o c False show ?thesis
            by (auto simp: walk.simps Let_def simp del: get_member.simps)
        next
          case (Some child)
          from Cons.IH[OF False nbr, where obj = child and pre = "pre @ [raw]"]
            ban o c False Some put[of ?key child]
          show ?thesis by (auto simp: walk.simps Let_def simp del: get_member.simps)
        qed
      qed
    next
      case (JObj m)
      note o = this
      from get_member_value[OF nb, of obj] o obtain c where c: "get_member obj ?key = Inr c"
        by auto
      show ?thesis
      proof (cases "rest = []")
        case True
        with ban o c show ?thesis by (auto simp: walk.simps Let_def simp del: get_member.simps)
      next
        case False
        show ?thesis
        proof (cases c)
          case None
          with ban o c False show ?thesis
            by (auto simp: walk.simps Let_def simp del: get_member.simps)
        next
          case (Some child)
          from Cons.IH[OF False nbr, where obj = child and pre = "pre @ [raw]"]
            ban o c False Some put[of ?key child]
          show ?thesis by (auto simp: walk.simps Let_def simp del: get_member.simps)
        qed
      qed
    qed
  qed
qed

lemma getValueByPointer_modelled:
  assumes "list_all (\<lambda>raw. \<not> builtin_name (unescapePathComponent raw)) (tl (split_slash p))"
  shows "getValueByPointer D p = Inl TypeError \<or> (\<exists>v. getValueByPointer D p = Inr v)"
proof (cases "p = []")
  case True
  then show ?thesis by (simp add: getValueByPointer_def)
next
  case False
  have nu: "\<not> builtin_name ''undefined''"
    by (simp add: builtin_name_def array_prototype_names_def string_prototype_names_def
        number_prototype_names_def object_prototype_names_def)
  show ?thesis
  proof (cases "split_slash p")
    case Nil
    then show ?thesis by (cases p) (auto split: list.splits if_splits)
  next
    case (Cons k0 ks)
    show ?thesis
    proof (cases "ks = []")
      case True
      with Cons False obj_leaf_get[OF nu, of D] show ?thesis
        by (cases D) (auto simp: getValueByPointer_def nv_apply_def simp del: obj_leaf.simps)
    next
      case ne: False
      then obtain k ks' where "ks = k # ks'" by (cases ks) auto
      with Cons False assms walk_get_modelled[OF ne, of "\<lambda>frag. None" p "[k0]" False D] show ?thesis
        by (auto simp: getValueByPointer_def nv_apply_def)
    qed
  qed
qed

lemma pathExists_modelled:
  assumes "list_all (\<lambda>raw. \<not> builtin_name (unescapePathComponent raw)) (tl (split_slash p))"
  shows "\<exists>b. pathExists D p = Inr b"
  using getValueByPointer_modelled[OF assms, of D] by (auto simp: pathExists_def)

end
